theory Spec2Isabelle
  imports Main "HOL-Library.Sublist"
begin

section \<open>The chat route of the MDnexa backend\<close>

text \<open>
  The route file of the chat API (the second module of \<^verbatim>\<open>src/unnamed/part_000\<close>) holds one
  asynchronous handler, \<^verbatim>\<open>router.post('/message', ...)\<close>. It talks to three collaborators that
  live outside the file: the Supabase client (authentication and four tables), the
  \<^verbatim>\<open>robustGemini\<close> generation wrapper and \<^verbatim>\<open>hasUnlimitedAccess\<close>. The handler is embedded as
  a function over an explicit world: the collaborators are a parameter, every awaited call
  is an event of a trace, and a rejected promise is a value. A store call fails by
  rejecting: the handler reads the \<^verbatim>\<open>error\<close> field of a resolved call only after
  \<^verbatim>\<open>getUser\<close> and after the profile read, and its \<^verbatim>\<open>catch\<close> blocks see rejections only.
\<close>

subsection \<open>JavaScript values that the handler inspects\<close>

text \<open>An optional string is truthy when it is present and not empty.\<close>

definition truthy :: "string option \<Rightarrow> bool" where
  "truthy v = (case v of None \<Rightarrow> False | Some s \<Rightarrow> s \<noteq> [])"

text \<open>\<^verbatim>\<open>a || b\<close> on optional strings.\<close>

definition or_else :: "string option \<Rightarrow> string option \<Rightarrow> string option" where
  "or_else a b = (if truthy a then a else b)"

text \<open>\<^verbatim>\<open>a || 'text'\<close> on an optional string.\<close>

definition or_default :: "string option \<Rightarrow> string \<Rightarrow> string" where
  "or_default a d = (case a of None \<Rightarrow> d | Some s \<Rightarrow> if s = [] then d else s)"

text \<open>\<^verbatim>\<open>s.includes(sub)\<close>.\<close>

fun str_includes :: "string \<Rightarrow> string \<Rightarrow> bool" where
  "str_includes [] sub = (sub = [])"
| "str_includes (x # xs) sub = (prefix sub (x # xs) \<or> str_includes xs sub)"

text \<open>\<^verbatim>\<open>s.split(sep)\<close> for a one-character separator.\<close>

fun split :: "char \<Rightarrow> string \<Rightarrow> string list" where
  "split sep [] = [Nil]"
| "split sep (x # xs) =
     (if x = sep then [] # split sep xs
      else (case split sep xs of [] \<Rightarrow> [x # Nil] | p # ps \<Rightarrow> (x # p) # ps))"

subsection \<open>Request, rows and errors\<close>

text \<open>An entry of \<^verbatim>\<open>req.body.history\<close>: the handler reads \<^verbatim>\<open>role\<close> and \<^verbatim>\<open>text\<close>.\<close>

record hist_msg =
  h_role :: string
  h_text :: string

text \<open>An entry of \<^verbatim>\<open>formattedHistory\<close>: \<^verbatim>\<open>{ role, parts: [{ text }] }\<close>.\<close>

record fmt_msg =
  f_role :: string
  f_text :: string

record request =
  authorization :: "string option"
  message :: string
  history :: "hist_msg list option"
  language :: "string option"
  region :: "string option"
  country :: "string option"
  userRole :: "string option"
  isShortAnswer :: bool
  sessionId :: "string option"

subsection \<open>Formatting the history (step 4 of the handler)\<close>

definition format_msg :: "hist_msg \<Rightarrow> fmt_msg" where
  "format_msg msg =
     \<lparr>f_role = (if h_role msg = ''user'' then ''user'' else ''model''), f_text = h_text msg\<rparr>"

text \<open>
  \<^verbatim>\<open>while (formattedHistory.length > 0 && formattedHistory[0].role === 'model')
    formattedHistory.shift();\<close>
\<close>

fun shift_leading_model :: "fmt_msg list \<Rightarrow> fmt_msg list" where
  "shift_leading_model [] = []"
| "shift_leading_model (m # ms) =
     (if f_role m = ''model'' then shift_leading_model ms else m # ms)"

definition format_history :: "hist_msg list \<Rightarrow> fmt_msg list" where
  "format_history h = shift_leading_model (map format_msg h)"

subsection \<open>Rows, errors and the calls to the collaborators\<close>

text \<open>What a rejected store call is thrown with; the handler reads these three fields.\<close>

record db_error =
  err_code :: "string option"
  err_message :: "string option"
  err_details :: "string option"

text \<open>
  The authenticated user of \<^verbatim>\<open>supabase.auth.getUser\<close>: \<^verbatim>\<open>id\<close>, \<^verbatim>\<open>role\<close>,
  \<^verbatim>\<open>user_metadata?.role\<close>, \<^verbatim>\<open>user_metadata?.professional_role\<close>, \<^verbatim>\<open>app_metadata?.role\<close>.
\<close>

record auth_user =
  u_id :: string
  u_role :: "string option"
  u_meta_role :: "string option"
  u_meta_professional_role :: "string option"
  u_app_role :: "string option"

record profile =
  p_role :: "string option"
  p_professional_role :: "string option"
  p_specialty :: "string option"
  p_title :: "string option"

record message_row =
  cm_session_id :: string
  cm_user_id :: string
  cm_role :: string
  cm_content :: string

record session_row =
  cs_id :: string
  cs_user_id :: string
  cs_title :: string
  cs_region :: string
  cs_country :: string

text \<open>
  The argument of \<^verbatim>\<open>robustGemini.generateMessage\<close>. The system instruction is a fixed
  template over the country, the region, the professional role, the language and the
  short-answer flag, so the request carries these five; the temperature and the token limit
  are the constants 0.7 and 4096.
\<close>

record gen_request =
  g_message :: string
  g_history :: "fmt_msg list"
  g_country :: "string option"
  g_region :: "string option"
  g_professionalRole :: "string option"
  g_language :: "string option"
  g_concise :: bool

text \<open>The object handed to \<^verbatim>\<open>hasUnlimitedAccess\<close>: \<^verbatim>\<open>{ ...user, ...profile, roles: allRoles }\<close>.\<close>

record access_subject =
  subj_user :: auth_user
  subj_profile :: "profile option"
  roles :: "string list"

text \<open>Every awaited call of the handler, in the order of the source.\<close>

datatype call =
    Auth_getUser string
  | Profiles_select string
  | Usage_select string
  | Usage_insert string int
  | Usage_update string int
  | GenerateMessage gen_request
  | Messages_insert message_row
  | Sessions_touch string
  | Sessions_insert session_row
  | Sessions_set_title string string

datatype payload =
    No_data
  | User_data auth_user
  | Profile_data profile
  | Usage_data int
  | Generated string string

text \<open>
  An awaited promise rejects with an error, or resolves with \<^verbatim>\<open>data\<close> and an optional
  \<^verbatim>\<open>error\<close> field.
\<close>

datatype reply = Rejects db_error | Resolves payload "db_error option"

text \<open>
  The collaborators over a state of their own: the remote calls, \<^verbatim>\<open>hasUnlimitedAccess\<close>
  (of \<^verbatim>\<open>../utils/accessControl\<close>, not part of the sources) and the clock read through
  \<^verbatim>\<open>new Date().toLocaleString('en-US', ...)\<close>.
\<close>

record 's collaborators =
  remote :: "'s \<Rightarrow> call \<Rightarrow> reply \<times> 's"
  hasUnlimitedAccess :: "access_subject \<Rightarrow> bool"
  toLocaleString :: "'s \<Rightarrow> string"

record 's world =
  store :: 's
  trace :: "call list"

definition await :: "'s collaborators \<Rightarrow> call \<Rightarrow> 's world \<Rightarrow> reply \<times> 's world" where
  "await E c w =
     (case remote E (store w) c of (r, s') \<Rightarrow> (r, \<lparr>store = s', trace = trace w @ [c]\<rparr>))"

text \<open>What the handler throws into its outer \<^verbatim>\<open>catch\<close>.\<close>

datatype thrown = Rejected db_error | TypeError

text \<open>
  The three responses: \<^verbatim>\<open>res.json({ text, model })\<close>, status 403 with
  \<^verbatim>\<open>error: 'LIMIT_REACHED'\<close>, and status 500 built from the caught error.
\<close>

datatype response = Json_ok string string | Limit_reached | Server_error thrown

subsection \<open>Step 1: optional authentication\<close>

definition bearer_token :: "string \<Rightarrow> string option" where
  "bearer_token authHeader =
     (case split CHR '' '' authHeader of _ # token # _ \<Rightarrow> Some token | _ \<Rightarrow> None)"

text \<open>
  The token that reaches \<^verbatim>\<open>supabase.auth.getUser\<close>: the header is present and not empty, its
  second space-separated piece is not empty and is not the text \<^verbatim>\<open>null\<close>.
\<close>

definition presented_token :: "request \<Rightarrow> string option" where
  "presented_token req =
     (case authorization req of
        None \<Rightarrow> None
      | Some authHeader \<Rightarrow>
          if authHeader = [] then None
          else (case bearer_token authHeader of
                  None \<Rightarrow> None
                | Some token \<Rightarrow> if token \<noteq> [] \<and> token \<noteq> ''null'' then Some token else None))"

definition authenticate ::
  "'s collaborators \<Rightarrow> request \<Rightarrow> 's world \<Rightarrow> auth_user option \<times> 's world" where
  "authenticate E req w =
     (case presented_token req of
        None \<Rightarrow> (None, w)
      | Some token \<Rightarrow>
          (case await E (Auth_getUser token) w of
             (Resolves (User_data authUser) None, w') \<Rightarrow> (Some authUser, w')
           | (_, w') \<Rightarrow> (None, w')))"

subsection \<open>Step 2: access control and the usage counter\<close>

definition allRoles :: "auth_user \<Rightarrow> profile option \<Rightarrow> string list" where
  "allRoles user prof =
     map the (filter truthy
       [Option.bind prof p_role, u_role user, u_meta_role user, u_app_role user])"

definition professionalRole_of ::
  "request \<Rightarrow> auth_user \<Rightarrow> profile option \<Rightarrow> string option" where
  "professionalRole_of req user prof =
     or_else (Option.bind prof p_professional_role)
       (or_else (Option.bind prof p_specialty)
          (or_else (Option.bind prof p_title)
             (or_else (u_meta_professional_role user)
                (or_else (userRole req) (Some ''Physician'')))))"

datatype gate = Allowed | Denied

text \<open>The \<^verbatim>\<open>data\<close> of a reply read as a usage row, and as a profile.\<close>

definition usage_of :: "payload \<Rightarrow> int option" where
  "usage_of d = (case d of Usage_data n \<Rightarrow> Some n | _ \<Rightarrow> None)"

definition profile_of :: "payload \<Rightarrow> profile option" where
  "profile_of d = (case d of Profile_data p \<Rightarrow> Some p | _ \<Rightarrow> None)"

text \<open>\<^verbatim>\<open>const currentCount = usage ? usage.questions_count : 0\<close>\<close>

definition currentCount_of :: "int option \<Rightarrow> int" where
  "currentCount_of usage = (case usage of None \<Rightarrow> 0 | Some n \<Rightarrow> n)"

text \<open>The write under the comment \<^verbatim>\<open>// Increment Usage\<close>.\<close>

definition increment_call :: "string \<Rightarrow> int option \<Rightarrow> call" where
  "increment_call uid usage =
     (case usage of
        None \<Rightarrow> Usage_insert uid 1
      | Some _ \<Rightarrow> Usage_update uid (currentCount_of usage + 1))"

text \<open>The block under \<^verbatim>\<open>if (!isUnlimited)\<close>: read the usage row, compare with 5, write.\<close>

definition usage_gate ::
  "'s collaborators \<Rightarrow> auth_user \<Rightarrow> 's world \<Rightarrow> (thrown + gate) \<times> 's world" where
  "usage_gate E user w =
     (case await E (Usage_select (u_id user)) w of
        (Rejects e, w1) \<Rightarrow> (Inl (Rejected e), w1)
      | (Resolves d _, w1) \<Rightarrow>
          if currentCount_of (usage_of d) \<ge> 5 then (Inr Denied, w1)
          else (case await E (increment_call (u_id user) (usage_of d)) w1 of
                  (Rejects e, w2) \<Rightarrow> (Inl (Rejected e), w2)
                | (Resolves _ _, w2) \<Rightarrow> (Inr Allowed, w2)))"

definition access_subject_of :: "auth_user \<Rightarrow> profile option \<Rightarrow> access_subject" where
  "access_subject_of user prof =
     \<lparr>subj_user = user, subj_profile = prof, roles = allRoles user prof\<rparr>"

definition access_control ::
  "'s collaborators \<Rightarrow> request \<Rightarrow> auth_user option \<Rightarrow> 's world
     \<Rightarrow> (thrown + gate \<times> string option) \<times> 's world" where
  "access_control E req user w =
     (case user of
        None \<Rightarrow> (Inr (Allowed, or_else (userRole req) (Some ''Physician'')), w)
      | Some u \<Rightarrow>
          (case await E (Profiles_select (u_id u)) w of
             (Rejects e, w1) \<Rightarrow> (Inl (Rejected e), w1)
           | (Resolves d _, w1) \<Rightarrow>
               (let isUnlimited = hasUnlimitedAccess E (access_subject_of u (profile_of d));
                    professionalRole = professionalRole_of req u (profile_of d)
                in if \<not> isUnlimited then
                     (case usage_gate E u w1 of
                        (Inl ex, w2) \<Rightarrow> (Inl ex, w2)
                      | (Inr g, w2) \<Rightarrow> (Inr (g, professionalRole), w2))
                   else (Inr (Allowed, professionalRole), w1))))"

subsection \<open>Step 6: persistence\<close>

definition user_row :: "string \<Rightarrow> auth_user \<Rightarrow> string \<Rightarrow> message_row" where
  "user_row sid user msg =
     \<lparr>cm_session_id = sid, cm_user_id = u_id user, cm_role = ''user'', cm_content = msg\<rparr>"

definition model_row :: "string \<Rightarrow> auth_user \<Rightarrow> string \<Rightarrow> message_row" where
  "model_row sid user responseText =
     \<lparr>cm_session_id = sid, cm_user_id = u_id user, cm_role = ''model'',
      cm_content = responseText\<rparr>"

text \<open>
  The closure \<^verbatim>\<open>persistMessages\<close>: three awaited writes; the first that rejects ends it with
  the error.
\<close>

definition persistMessages ::
  "'s collaborators \<Rightarrow> string \<Rightarrow> auth_user \<Rightarrow> string \<Rightarrow> string \<Rightarrow> 's world
     \<Rightarrow> db_error option \<times> 's world" where
  "persistMessages E sid user msg responseText w =
     (case await E (Messages_insert (user_row sid user msg)) w of
        (Rejects e, w1) \<Rightarrow> (Some e, w1)
      | (Resolves _ _, w1) \<Rightarrow>
          (case await E (Messages_insert (model_row sid user responseText)) w1 of
             (Rejects e, w2) \<Rightarrow> (Some e, w2)
           | (Resolves _ _, w2) \<Rightarrow>
               (case await E (Sessions_touch sid) w2 of
                  (Rejects e, w3) \<Rightarrow> (Some e, w3)
                | (Resolves _ _, w3) \<Rightarrow> (None, w3))))"

text \<open>The third disjunct of that test: the details name the session table.\<close>

definition names_session_table :: "db_error \<Rightarrow> bool" where
  \<open>names_session_table e =
     (case err_details e of
        None \<Rightarrow> False
      | Some d \<Rightarrow> str_includes d ''is not present in table "chat_sessions"'')\<close>

text \<open>
  The test of the first \<^verbatim>\<open>catch\<close>: \<^verbatim>\<open>dbError.code === '23503' ||
  dbError.message?.includes('foreign key') || dbError.details?.includes(...)\<close>.
\<close>

definition missing_session :: "db_error \<Rightarrow> bool" where
  "missing_session e =
     (err_code e = Some ''23503''
      \<or> (case err_message e of None \<Rightarrow> False | Some m \<Rightarrow> str_includes m ''foreign key'')
      \<or> names_session_table e)"

definition new_session ::
  "'s collaborators \<Rightarrow> request \<Rightarrow> string \<Rightarrow> auth_user \<Rightarrow> 's \<Rightarrow> session_row" where
  "new_session E req sid user s =
     \<lparr>cs_id = sid, cs_user_id = u_id user, cs_title = toLocaleString E s,
      cs_region = or_default (region req) ''International'',
      cs_country = or_default (country req) ''International''\<rparr>"

text \<open>
  The \<^verbatim>\<open>try\<close>/\<^verbatim>\<open>catch\<close> around \<^verbatim>\<open>persistMessages\<close>; the result is \<^verbatim>\<open>persistenceSuccess\<close>.
\<close>

definition persistence ::
  "'s collaborators \<Rightarrow> request \<Rightarrow> string \<Rightarrow> auth_user \<Rightarrow> string \<Rightarrow> 's world
     \<Rightarrow> bool \<times> 's world" where
  "persistence E req sid user responseText w =
     (case persistMessages E sid user (message req) responseText w of
        (None, w1) \<Rightarrow> (True, w1)
      | (Some dbError, w1) \<Rightarrow>
          if missing_session dbError then
            (case await E (Sessions_insert (new_session E req sid user (store w1))) w1 of
               (Rejects retryError, w2) \<Rightarrow> (False, w2)
             | (Resolves _ _, w2) \<Rightarrow>
                 (case persistMessages E sid user (message req) responseText w2 of
                    (None, w3) \<Rightarrow> (True, w3)
                  | (Some retryError, w3) \<Rightarrow> (False, w3)))
          else (False, w1))"

subsection \<open>The handler\<close>

definition gen_request_of :: "request \<Rightarrow> string option \<Rightarrow> fmt_msg list \<Rightarrow> gen_request" where
  "gen_request_of req professionalRole formattedHistory =
     \<lparr>g_message = message req, g_history = formattedHistory, g_country = country req,
      g_region = region req, g_professionalRole = professionalRole,
      g_language = language req, g_concise = isShortAnswer req\<rparr>"

text \<open>
  Steps 5 and 6 and the response, once access is granted and the history is formatted. A
  generation that resolves without data cannot be destructured into text and model: a
  TypeError for the outer \<^verbatim>\<open>catch\<close>. The title update is awaited after the \<^verbatim>\<open>try\<close>/\<^verbatim>\<open>catch\<close> of the
  persistence and inside the outer \<^verbatim>\<open>try\<close>.
\<close>

definition generate_and_persist ::
  "'s collaborators \<Rightarrow> request \<Rightarrow> auth_user option \<Rightarrow> string option \<Rightarrow> fmt_msg list
     \<Rightarrow> 's world \<Rightarrow> response \<times> 's world" where
  "generate_and_persist E req user professionalRole formattedHistory w =
     (case await E (GenerateMessage (gen_request_of req professionalRole formattedHistory)) w of
        (Rejects e, w1) \<Rightarrow> (Server_error (Rejected e), w1)
      | (Resolves (Generated responseText usedModel) _, w1) \<Rightarrow>
          (case (user, sessionId req) of
             (Some u, Some sid) \<Rightarrow>
               if sid = [] then (Json_ok responseText usedModel, w1)
               else (case persistence E req sid u responseText w1 of
                       (persistenceSuccess, w2) \<Rightarrow>
                         if persistenceSuccess \<and> formattedHistory = [] then
                           (case await E
                                   (Sessions_set_title sid (toLocaleString E (store w2))) w2 of
                              (Rejects e, w3) \<Rightarrow> (Server_error (Rejected e), w3)
                            | (Resolves _ _, w3) \<Rightarrow> (Json_ok responseText usedModel, w3))
                         else (Json_ok responseText usedModel, w2))
           | _ \<Rightarrow> (Json_ok responseText usedModel, w1))
      | (Resolves _ _, w1) \<Rightarrow> (Server_error TypeError, w1))"

definition handler :: "'s collaborators \<Rightarrow> request \<Rightarrow> 's world \<Rightarrow> response \<times> 's world" where
  "handler E req w =
     (case authenticate E req w of
        (user, w1) \<Rightarrow>
          (case access_control E req user w1 of
             (Inl ex, w2) \<Rightarrow> (Server_error ex, w2)
           | (Inr (Denied, _), w2) \<Rightarrow> (Limit_reached, w2)
           | (Inr (Allowed, professionalRole), w2) \<Rightarrow>
               (case history req of
                  None \<Rightarrow> (Server_error TypeError, w2)
                | Some h \<Rightarrow>
                    generate_and_persist E req user professionalRole (format_history h) w2)))"

text \<open>Requests served one after the other, each on the world the previous one left.\<close>

fun serve :: "'s collaborators \<Rightarrow> request list \<Rightarrow> 's world \<Rightarrow> response list \<times> 's world" where
  "serve E [] w = ([], w)"
| "serve E (req # reqs) w =
     (case handler E req w of
        (res, w1) \<Rightarrow> (case serve E reqs w1 of (ress, w2) \<Rightarrow> (res # ress, w2)))"

text \<open>The calls a run added to the trace.\<close>

definition calls_since :: "'s world \<Rightarrow> 's world \<Rightarrow> call list" where
  "calls_since w w' = drop (length (trace w)) (trace w')"

subsection \<open>The related-questions route\<close>

text \<open>\<^verbatim>\<open>router.post('/related', ...)\<close> of \<^verbatim>\<open>src/backend/routes/gemini.js\<close>.\<close>

datatype json =
    JNull | JBool bool | JNumber int | JString string | JArray "json list"
  | JObject "(string \<times> json) list"

text \<open>The fields of \<^verbatim>\<open>req.body\<close> that the handler reads.\<close>

record related_body =
  r_lastMessage :: "string option"
  r_lastResponse :: "string option"
  r_userRole :: "string option"
  r_language :: "string option"

text \<open>
  The prompt is a fixed template over the role, the language and the first 200 characters
  of the last message and of the last response.
\<close>

record related_prompt =
  q_userRole :: "string option"
  q_language :: "string option"
  q_question :: string
  q_answer :: string

definition related_prompt_of ::
  "string option \<Rightarrow> string option \<Rightarrow> string \<Rightarrow> string \<Rightarrow> related_prompt" where
  "related_prompt_of role lang lastMessage lastResponse =
     \<lparr>q_userRole = role, q_language = lang, q_question = take 200 lastMessage,
      q_answer = take 200 lastResponse\<rparr>"

text \<open>
  What \<^verbatim>\<open>robustGemini.generateContent\<close> and \<^verbatim>\<open>result.response.text()\<close> give: the call is
  rejected, or reading the text throws, or there is a text.
\<close>

datatype generated = Generation_rejected db_error | Text_throws db_error | Text string

record http_response =
  res_status :: nat
  res_body :: json

text \<open>
  The handler over its two collaborators, the generation call and \<^verbatim>\<open>JSON.parse\<close> (\<open>None\<close> is
  its SyntaxError). \<^verbatim>\<open>lastMessage.substring\<close> on a missing field throws inside the \<^verbatim>\<open>try\<close>;
  every \<^verbatim>\<open>res.json\<close> answers with status 200.
\<close>

definition related ::
  "(related_prompt \<Rightarrow> generated) \<Rightarrow> (string \<Rightarrow> json option) \<Rightarrow> related_body
     \<Rightarrow> http_response" where
  "related generateContent JSON_parse b =
     (case (r_lastMessage b, r_lastResponse b) of
        (Some lastMessage, Some lastResponse) \<Rightarrow>
          (case generateContent
                  (related_prompt_of (r_userRole b) (r_language b) lastMessage lastResponse) of
             Text text \<Rightarrow>
               (case JSON_parse text of
                  Some parsed \<Rightarrow> \<lparr>res_status = 200, res_body = parsed\<rparr>
                | None \<Rightarrow> \<lparr>res_status = 200, res_body = JArray []\<rparr>)
           | _ \<Rightarrow> \<lparr>res_status = 200, res_body = JArray []\<rparr>)
      | _ \<Rightarrow> \<lparr>res_status = 200, res_body = JArray []\<rparr>)"

definition follow_up :: related_body where
  "follow_up = \<lparr>r_lastMessage = Some ''What is sepsis?'',
     r_lastResponse = Some ''Sepsis is a dysregulated host response to infection.'',
     r_userRole = Some ''Physician'', r_language = Some ''English''\<rparr>"

text \<open>A parser that knows one text, for the sample runs.\<close>

definition only_empty_array :: "string \<Rightarrow> json option" where
  "only_empty_array t = (if t = ''[]'' then Some (JArray []) else None)"

subsection \<open>A relational store to run the handler on\<close>

text \<open>
  The tables the handler names, the users behind the bearer tokens and the clock: one usage
  row per identity, sessions keyed by their id, messages in insertion order.
\<close>

record db =
  auth_users :: "string \<rightharpoonup> auth_user"
  profiles :: "string \<rightharpoonup> profile"
  question_usage :: "string \<rightharpoonup> int"
  chat_sessions :: "string \<rightharpoonup> session_row"
  chat_messages :: "message_row list"
  clock :: string

definition no_rows :: db_error where
  "no_rows = \<lparr>err_code = Some ''PGRST116'',
     err_message = Some ''JSON object requested, multiple (or no) rows returned'',
     err_details = None\<rparr>"

definition fk_violation :: "string \<Rightarrow> db_error" where
  \<open>fk_violation sid = \<lparr>err_code = Some ''23503'',
     err_message = Some ''insert or update on table "chat_messages" violates foreign key constraint'',
     err_details =
       Some (''Key (session_id)=('' @ sid @ '') is not present in table "chat_sessions".'')\<rparr>\<close>

definition duplicate_key :: db_error where
  "duplicate_key = \<lparr>err_code = Some ''23505'',
     err_message = Some ''duplicate key violates unique constraint'',
     err_details = None\<rparr>"

text \<open>
  Modelled from the spec: the relational store, the identity collaborator and the generation
  capability of section 6 of the specification; the Supabase client \<^verbatim>\<open>../utils/supabase\<close> and
  \<^verbatim>\<open>../utils/robustGemini\<close> are not part of the sources. A read of an absent row resolves
  without data and with an error; an insert of a message whose session is absent is rejected
  with a foreign-key violation that names the session table; an insert of a row whose key
  is taken resolves with an error and changes nothing; an update of an absent row changes
  nothing; the generation is a function of its request.
\<close>

definition store_step ::
  "(gen_request \<Rightarrow> db_error + string \<times> string) \<Rightarrow> db \<Rightarrow> call \<Rightarrow> reply \<times> db" where
  "store_step gen d c =
     (case c of
        Auth_getUser token \<Rightarrow>
          (case auth_users d token of
             None \<Rightarrow> (Resolves No_data (Some no_rows), d)
           | Some u \<Rightarrow> (Resolves (User_data u) None, d))
      | Profiles_select uid \<Rightarrow>
          (case profiles d uid of
             None \<Rightarrow> (Resolves No_data (Some no_rows), d)
           | Some p \<Rightarrow> (Resolves (Profile_data p) None, d))
      | Usage_select uid \<Rightarrow>
          (case question_usage d uid of
             None \<Rightarrow> (Resolves No_data (Some no_rows), d)
           | Some n \<Rightarrow> (Resolves (Usage_data n) None, d))
      | Usage_insert uid n \<Rightarrow>
          (if question_usage d uid \<noteq> None then (Resolves No_data (Some duplicate_key), d)
           else (Resolves No_data None, d\<lparr>question_usage := (question_usage d)(uid \<mapsto> n)\<rparr>))
      | Usage_update uid n \<Rightarrow>
          (Resolves No_data None,
           if question_usage d uid \<noteq> None
           then d\<lparr>question_usage := (question_usage d)(uid \<mapsto> n)\<rparr> else d)
      | GenerateMessage r \<Rightarrow>
          (case gen r of
             Inl e \<Rightarrow> (Rejects e, d)
           | Inr (t, m) \<Rightarrow> (Resolves (Generated t m) None, d))
      | Messages_insert row \<Rightarrow>
          (if chat_sessions d (cm_session_id row) \<noteq> None
           then (Resolves No_data None, d\<lparr>chat_messages := chat_messages d @ [row]\<rparr>)
           else (Rejects (fk_violation (cm_session_id row)), d))
      | Sessions_touch sid \<Rightarrow> (Resolves No_data None, d)
      | Sessions_insert row \<Rightarrow>
          (if chat_sessions d (cs_id row) \<noteq> None
           then (Resolves No_data (Some duplicate_key), d)
           else (Resolves No_data None,
                 d\<lparr>chat_sessions := (chat_sessions d)(cs_id row \<mapsto> row)\<rparr>))
      | Sessions_set_title sid t \<Rightarrow>
          (Resolves No_data None,
           case chat_sessions d sid of
             None \<Rightarrow> d
           | Some row \<Rightarrow> d\<lparr>chat_sessions := (chat_sessions d)(sid \<mapsto> row\<lparr>cs_title := t\<rparr>)\<rparr>))"

definition relational ::
  "(gen_request \<Rightarrow> db_error + string \<times> string) \<Rightarrow> (access_subject \<Rightarrow> bool)
     \<Rightarrow> db collaborators" where
  "relational gen unlimited =
     \<lparr>remote = store_step gen, hasUnlimitedAccess = unlimited, toLocaleString = clock\<rparr>"

text \<open>
  Modelled from the spec: the same relational store behind a client that never rejects. A
  call that fails resolves with the failure in its \<^verbatim>\<open>error\<close> field, which is how the routes of
  the file read the replies of the client: \<^verbatim>\<open>const { data, error } = await ...; if (error)
  throw error\<close> in the user routes and in \<^verbatim>\<open>/debug\<close>, \<^verbatim>\<open>{ data: profile, error: profileError }\<close>
  in this handler.
\<close>

definition resolving_step ::
  "(gen_request \<Rightarrow> db_error + string \<times> string) \<Rightarrow> db \<Rightarrow> call \<Rightarrow> reply \<times> db" where
  "resolving_step gen d c =
     (case store_step gen d c of
        (Rejects e, d') \<Rightarrow> (Resolves No_data (Some e), d')
      | (Resolves x err, d') \<Rightarrow> (Resolves x err, d'))"

definition resolving ::
  "(gen_request \<Rightarrow> db_error + string \<times> string) \<Rightarrow> (access_subject \<Rightarrow> bool)
     \<Rightarrow> db collaborators" where
  "resolving gen unlimited =
     \<lparr>remote = resolving_step gen, hasUnlimitedAccess = unlimited, toLocaleString = clock\<rparr>"

text \<open>
  Collaborators that answer from a script, one reply per call whatever the call is: the way
  to put a rejection at a chosen call.
\<close>

definition scripted_step :: "reply list \<Rightarrow> call \<Rightarrow> reply \<times> reply list" where
  "scripted_step rs c = (case rs of [] \<Rightarrow> (Resolves No_data None, []) | r # rs' \<Rightarrow> (r, rs'))"

definition scripted :: "(access_subject \<Rightarrow> bool) \<Rightarrow> reply list collaborators" where
  "scripted unlimited =
     \<lparr>remote = scripted_step, hasUnlimitedAccess = unlimited,
      toLocaleString = (\<lambda>_. ''Nov 3, 09:08 AM'')\<rparr>"

definition start :: "'s \<Rightarrow> 's world" where
  "start s = \<lparr>store = s, trace = []\<rparr>"

subsection \<open>A sample identity, request and store\<close>

definition alice :: auth_user where
  "alice = \<lparr>u_id = ''u-alice'', u_role = Some ''authenticated'', u_meta_role = None,
     u_meta_professional_role = None, u_app_role = None\<rparr>"

definition first_question :: request where
  "first_question = \<lparr>authorization = Some ''Bearer alice-token'', message = ''What is sepsis?'',
     history = Some [], language = None, region = None, country = Some ''India'',
     userRole = None, isShortAnswer = False, sessionId = Some ''s1''\<rparr>"

definition fresh_store :: db where
  "fresh_store = \<lparr>auth_users = [''alice-token'' \<mapsto> alice], profiles = Map.empty,
     question_usage = Map.empty, chat_sessions = Map.empty, chat_messages = [],
     clock = ''Nov 3, 09:08 AM''\<rparr>"

definition answers :: "gen_request \<Rightarrow> db_error + string \<times> string" where
  "answers r = Inr (''Sepsis is a dysregulated host response to infection.'', ''gemini-2.0-flash'')"

definition outage :: db_error where
  "outage = \<lparr>err_code = Some ''08006'', err_message = Some ''connection failure'',
     err_details = None\<rparr>"

text \<open>A \<^verbatim>\<open>hasUnlimitedAccess\<close> that accepts no subject.\<close>

definition nobody :: "access_subject \<Rightarrow> bool" where
  "nobody subj = False"

definition five_used :: db where
  "five_used = fresh_store\<lparr>question_usage := [''u-alice'' \<mapsto> 5]\<rparr>"

definition failing :: "gen_request \<Rightarrow> db_error + string \<times> string" where
  "failing r = Inl outage"

definition six_questions :: "request list" where
  "six_questions = replicate 6 first_question"

definition root :: auth_user where
  "root = \<lparr>u_id = ''u-root'', u_role = Some ''authenticated'', u_meta_role = None,
     u_meta_professional_role = None, u_app_role = Some ''admin''\<rparr>"

text \<open>
  Modelled from the spec: \<^verbatim>\<open>hasUnlimitedAccess\<close> of \<^verbatim>\<open>../utils/accessControl\<close> is not part of the
  sources. This instance accepts a subject when one role of its list is \<^verbatim>\<open>admin\<close>
  (section 4.3: any one source claiming elevated access is sufficient).
\<close>

definition any_admin :: "access_subject \<Rightarrow> bool" where
  "any_admin subj = (''admin'' \<in> set (roles subj))"

definition staffed_store :: db where
  "staffed_store = fresh_store\<lparr>auth_users := [''root-token'' \<mapsto> root],
     question_usage := [''u-root'' \<mapsto> 3]\<rparr>"

definition root_question :: request where
  "root_question = first_question\<lparr>authorization := Some ''Bearer root-token''\<rparr>"

definition hundred_questions :: "request list" where
  "hundred_questions = replicate 100 root_question"




definition greeted_question :: request where
  "greeted_question = first_question
     \<lparr>history := Some [\<lparr>h_role = ''model'', h_text = ''Welcome to MDnexa''\<rparr>,
                        \<lparr>h_role = ''user'', h_text = ''What is sepsis?''\<rparr>,
                        \<lparr>h_role = ''model'', h_text = ''Sepsis is ...''\<rparr>]\<rparr>"


text \<open>The part of the store that holds identities and their usage rows.\<close>

definition identities :: "db \<Rightarrow> (string \<rightharpoonup> auth_user) \<times> (string \<rightharpoonup> profile) \<times> (string \<rightharpoonup> int)" where
  "identities d = (auth_users d, profiles d, question_usage d)"

subsection \<open>Reading a trace\<close>

fun usage_write :: "call \<Rightarrow> bool" where
  "usage_write (Usage_insert _ _) = True"
| "usage_write (Usage_update _ _) = True"
| "usage_write _ = False"

fun usage_call :: "call \<Rightarrow> bool" where
  "usage_call (Usage_select _) = True"
| "usage_call c = usage_write c"

fun is_generate :: "call \<Rightarrow> bool" where
  "is_generate (GenerateMessage _) = True"
| "is_generate _ = False"

text \<open>A generation call carries the history \<open>fh\<close>; every other call passes.\<close>

fun generates_with :: "fmt_msg list \<Rightarrow> call \<Rightarrow> bool" where
  "generates_with fh (GenerateMessage r) = (g_history r = fh)"
| "generates_with fh c = True"

fun is_session_insert :: "call \<Rightarrow> bool" where
  "is_session_insert (Sessions_insert _) = True"
| "is_session_insert _ = False"


fun is_message_insert :: "call \<Rightarrow> bool" where
  "is_message_insert (Messages_insert _) = True"
| "is_message_insert _ = False"

text \<open>A read or a write of the usage row of identity \<open>i\<close>.\<close>

fun usage_call_of :: "string \<Rightarrow> call \<Rightarrow> bool" where
  "usage_call_of i (Usage_select uid) = (uid = i)"
| "usage_call_of i (Usage_insert uid _) = (uid = i)"
| "usage_call_of i (Usage_update uid _) = (uid = i)"
| "usage_call_of i _ = False"

text \<open>The calls of steps 5 and 6.\<close>

fun chat_call :: "call \<Rightarrow> bool" where
  "chat_call (GenerateMessage _) = True"
| "chat_call (Messages_insert _) = True"
| "chat_call (Sessions_touch _) = True"
| "chat_call (Sessions_insert _) = True"
| "chat_call (Sessions_set_title _ _) = True"
| "chat_call _ = False"

text \<open>
  The calls of one complete run of \<^verbatim>\<open>persistMessages\<close>, and the number of runs begun in a
  trace: every run begins with the insert of the user row and makes it once.
\<close>

definition turn_calls :: "string \<Rightarrow> auth_user \<Rightarrow> string \<Rightarrow> string \<Rightarrow> call list" where
  "turn_calls sid user msg responseText =
     [Messages_insert (user_row sid user msg),
      Messages_insert (model_row sid user responseText), Sessions_touch sid]"

definition attempts :: "string \<Rightarrow> auth_user \<Rightarrow> string \<Rightarrow> call list \<Rightarrow> nat" where
  "attempts sid user msg cs = count_list cs (Messages_insert (user_row sid user msg))"

text \<open>
  Every insert of a model row comes directly after the insert of a user row of the same
  session and owner; \<open>prev\<close> is the row of the call just before, when that was an insert.
\<close>

fun user_before_model :: "message_row option \<Rightarrow> call list \<Rightarrow> bool" where
  "user_before_model prev [] = True"
| "user_before_model prev (Messages_insert r # cs) =
     (if cm_role r = ''model'' then
        (case prev of
           None \<Rightarrow> False
         | Some r' \<Rightarrow> cm_role r' = ''user'' \<and> cm_session_id r' = cm_session_id r
                      \<and> cm_user_id r' = cm_user_id r)
        \<and> user_before_model None cs
      else user_before_model (Some r) cs)"
| "user_before_model prev (c # cs) = user_before_model None cs"

section \<open>Properties\<close>

lemma shift_leading_model_dropWhile:
  "shift_leading_model ms = dropWhile (\<lambda>m. f_role m = ''model'') ms"
  by (induction ms) simp_all

lemma format_msg_model_iff: "f_role (format_msg m) = ''model'' \<longleftrightarrow> h_role m \<noteq> ''user''"
  by (simp add: format_msg_def)

lemma format_history_dropWhile:
  "format_history h = map format_msg (dropWhile (\<lambda>m. h_role m \<noteq> ''user'') h)"
  unfolding format_history_def shift_leading_model_dropWhile
  by (induction h) (simp_all add: format_msg_model_iff)

subsection \<open>Traces of the stages\<close>

lemma await_trace: "await E c w = (r, w') \<Longrightarrow> trace w' = trace w @ [c]"
  by (auto simp: await_def split: prod.splits)

lemma calls_since_append: "trace w' = trace w @ cs \<Longrightarrow> calls_since w w' = cs"
  by (simp add: calls_since_def)

lemma persistMessages_trace:
  assumes "persistMessages E sid user msg rt w = (r, w')"
  shows "\<exists>k\<in>{1, 2, 3}. trace w' = trace w @ take k (turn_calls sid user msg rt) \<and> (r = None \<longrightarrow> k = 3)"
  using assms unfolding persistMessages_def turn_calls_def
  by (auto split: prod.splits reply.splits dest!: await_trace)

lemma user_row_neq_model_row:
  "user_row sid user msg \<noteq> model_row sid user rt"
  "model_row sid user rt \<noteq> user_row sid user msg"
  by (simp_all add: user_row_def model_row_def)

lemma persistMessages_calls:
  assumes "persistMessages E sid user msg rt w = (r, w')"
  shows "trace w' = trace w @ calls_since w w'"
    and "attempts sid user msg (calls_since w w') = 1"
    and "filter is_session_insert (calls_since w w') = []"
    and "r = None \<Longrightarrow> calls_since w w' = turn_calls sid user msg rt"
  using persistMessages_trace [OF assms]
  by (auto simp: calls_since_def attempts_def turn_calls_def user_row_neq_model_row)

lemma persistence_no_recovery:
  assumes "persistence E req sid user rt w = (ok, w')"
      and "persistMessages E sid user (message req) rt w = (r1, w1)"
      and "r1 = None \<or> (\<exists>e. r1 = Some e \<and> \<not> missing_session e)"
  shows "w' = w1 \<and> ok = (r1 = None)"
  using assms unfolding persistence_def by (auto split: option.splits)

lemma persistence_recovery:
  assumes "persistence E req sid user rt w = (ok, w')"
      and "persistMessages E sid user (message req) rt w = (Some e, w1)"
      and "missing_session e"
      and "await E (Sessions_insert (new_session E req sid user (store w1))) w1 = (r2, w2)"
      and "persistMessages E sid user (message req) rt w2 = (r3, w3)"
  shows "(\<exists>d err. r2 = Resolves d err) \<longrightarrow> w' = w3 \<and> ok = (r3 = None)"
    and "(\<exists>e'. r2 = Rejects e') \<longrightarrow> w' = w2 \<and> \<not> ok"
  using assms unfolding persistence_def by (auto split: option.splits reply.splits)

lemma new_session_key:
  "cs_id (new_session E req sid user s) = sid \<and> cs_user_id (new_session E req sid user s) = u_id user"
  by (simp add: new_session_def)

lemma names_session_table_missing: "names_session_table e \<Longrightarrow> missing_session e"
  by (simp add: missing_session_def)

lemma await_relational:
  "await (relational gen un) c w =
     (fst (store_step gen (store w) c),
      \<lparr>store = snd (store_step gen (store w) c), trace = trace w @ [c]\<rparr>)"
  by (simp add: await_def relational_def split: prod.splits)

lemma store_step_simps:
  "store_step gen d (Messages_insert row) =
     (if chat_sessions d (cm_session_id row) \<noteq> None
      then (Resolves No_data None, d\<lparr>chat_messages := chat_messages d @ [row]\<rparr>)
      else (Rejects (fk_violation (cm_session_id row)), d))"
  "store_step gen d (Sessions_touch sid) = (Resolves No_data None, d)"
  "store_step gen d (Sessions_insert srow) =
     (if chat_sessions d (cs_id srow) \<noteq> None then (Resolves No_data (Some duplicate_key), d)
      else (Resolves No_data None,
            d\<lparr>chat_sessions := (chat_sessions d)(cs_id srow \<mapsto> srow)\<rparr>))"
  by (simp_all add: store_step_def)

lemma str_includes_append: "str_includes s sub \<Longrightarrow> str_includes (p @ s) sub"
  by (induction p) simp_all

lemma fk_violation_shape:
  \<open>names_session_table (fk_violation sid) \<and> missing_session (fk_violation sid)\<close>
proof -
  have \<open>str_includes '') is not present in table "chat_sessions".'' ''is not present in table "chat_sessions"''\<close>
    by simp
  then show ?thesis
    unfolding names_session_table_def missing_session_def fk_violation_def
    by (simp add: str_includes_append)
qed

lemma relational_missing_session:
  assumes "sid \<notin> dom (chat_sessions (store w))"
      and "persistence (relational gen un) req sid user rt w = (ok, w')"
  shows "ok"
    and "calls_since w w' = Messages_insert (user_row sid user (message req))
           # Sessions_insert (new_session (relational gen un) req sid user (store w))
           # turn_calls sid user (message req) rt"
    and "chat_messages (store w') = chat_messages (store w) @ [user_row sid user (message req), model_row sid user rt]"
  using assms fk_violation_shape [of sid]
  by (auto simp: persistence_def persistMessages_def await_relational store_step_simps
       user_row_def model_row_def new_session_def calls_since_def turn_calls_def domIff)

lemma relational_existing_session:
  assumes "sid \<in> dom (chat_sessions (store w))"
      and "persistence (relational gen un) req sid user rt w = (ok, w')"
  shows "ok"
    and "calls_since w w' = turn_calls sid user (message req) rt"
  using assms
  by (auto simp: persistence_def persistMessages_def await_relational store_step_simps
       user_row_def model_row_def new_session_def calls_since_def turn_calls_def domIff)

lemma user_before_model_snoc:
  "\<not> is_message_insert c \<Longrightarrow> user_before_model p (cs @ [c]) = user_before_model p cs"
proof (induction cs arbitrary: p)
  case Nil
  then show ?case by (cases c) simp_all
next
  case (Cons a cs)
  then show ?case by (cases a) simp_all
qed

lemma user_before_model_skip:
  "\<not> is_message_insert c \<Longrightarrow> user_before_model p (c # cs) = user_before_model None cs"
  by (cases c) simp_all

lemma user_before_model_prepend:
  "list_all (\<lambda>c. \<not> is_message_insert c) pre \<Longrightarrow> user_before_model None cs
   \<Longrightarrow> user_before_model None (pre @ cs)"
  by (induction pre) (simp_all add: user_before_model_skip)

lemma authenticate_calls:
  assumes "authenticate E req w = (u, w')"
  shows "trace w' = trace w @ (case presented_token req of None \<Rightarrow> [] | Some t \<Rightarrow> [Auth_getUser t])"
  using assms unfolding authenticate_def
  by (auto split: option.splits prod.splits reply.splits payload.splits dest!: await_trace)

lemma usage_gate_calls:
  assumes "usage_gate E u w = (r, w')"
  shows "\<exists>cs. trace w' = trace w @ cs \<and> list_all usage_call cs"
  using assms unfolding usage_gate_def increment_call_def
  by (auto split: option.splits prod.splits reply.splits if_splits dest!: await_trace)

lemma usage_call_not_insert: "usage_call c \<Longrightarrow> \<not> is_message_insert c"
  by (cases c) simp_all

lemma access_control_calls:
  assumes "access_control E req user w = (r, w')"
  shows "\<exists>cs. trace w' = trace w @ cs \<and> list_all (\<lambda>c. \<not> is_message_insert c) cs"
  using assms unfolding access_control_def Let_def
  by (auto split: option.splits prod.splits reply.splits if_splits sum.splits
      dest!: await_trace usage_gate_calls simp: list_all_iff usage_call_not_insert)

lemma persistence_order:
  assumes "persistence E req sid user rt w = (ok, w')"
  shows "\<exists>cs. trace w' = trace w @ cs \<and> user_before_model None cs"
  using assms unfolding persistence_def
  by (auto split: prod.splits option.splits if_splits reply.splits dest!: persistMessages_trace await_trace
       simp: turn_calls_def user_row_def model_row_def)

lemma generate_and_persist_order:
  assumes "generate_and_persist E req user pr fh w = (res, w')"
  shows "\<exists>cs. trace w' = trace w @ cs \<and> user_before_model None cs"
  using assms unfolding generate_and_persist_def
  by (auto split: prod.splits option.splits if_splits reply.splits payload.splits
        dest!: persistence_order await_trace simp: user_before_model_snoc)

subsection \<open>Recovery of a missing session\<close>

text \<open>
  The recovery as the \<^verbatim>\<open>catch\<close> blocks run it. Take one run of the persistence block, its first
  run of \<^verbatim>\<open>persistMessages\<close> (result \<open>r1\<close>, an error only when a write was rejected), the
  session insert that may follow it (reply \<open>r2\<close>) and the run of \<^verbatim>\<open>persistMessages\<close> after that
  (result \<open>r3\<close>). When the first run is rejected with an error that passes the test of the
  \<^verbatim>\<open>catch\<close>, the block makes exactly one session insert and, once that has resolved, exactly
  one more run; a rejected session insert is followed by no run; a first run that is not
  rejected, or is rejected with another error, is followed by no session insert.
\<close>

lemma recovery_after_a_rejected_insert:
  assumes run: "persistence E req sid user rt w = (ok, w')"
      and first: "persistMessages E sid user (message req) rt w = (r1, w1)"
      and create: "await E (Sessions_insert (new_session E req sid user (store w1))) w1 = (r2, w2)"
      and retry: "persistMessages E sid user (message req) rt w2 = (r3, w3)"
  shows "((\<exists>e. r1 = Some e \<and> names_session_table e) \<longrightarrow> (\<exists>e. r1 = Some e \<and> missing_session e))
       \<and> ((\<exists>e. r1 = Some e \<and> missing_session e) \<longrightarrow>
            filter is_session_insert (calls_since w w')
              = [Sessions_insert (new_session E req sid user (store w1))]
            \<and> cs_id (new_session E req sid user (store w1)) = sid
            \<and> cs_user_id (new_session E req sid user (store w1)) = u_id user)
       \<and> ((\<exists>e. r1 = Some e \<and> missing_session e) \<and> (\<exists>d err. r2 = Resolves d err) \<longrightarrow>
            calls_since w w' = calls_since w w1
              @ [Sessions_insert (new_session E req sid user (store w1))] @ calls_since w2 w3
            \<and> attempts sid user (message req) (calls_since w w1) = 1
            \<and> attempts sid user (message req) (calls_since w2 w3) = 1
            \<and> attempts sid user (message req) (calls_since w w') = 2
            \<and> ok = (r3 = None))
       \<and> ((\<exists>e. r1 = Some e \<and> missing_session e) \<and> (\<exists>e'. r2 = Rejects e') \<longrightarrow>
            attempts sid user (message req) (calls_since w w') = 1 \<and> \<not> ok)
       \<and> (r1 = None \<or> (\<exists>e. r1 = Some e \<and> \<not> missing_session e) \<longrightarrow>
            filter is_session_insert (calls_since w w') = []
            \<and> attempts sid user (message req) (calls_since w w') = 1
            \<and> ok = (r1 = None))
       \<and> (sid \<notin> dom (chat_sessions (store v)) \<longrightarrow>
            fst (persistence (relational gen un) req sid user rt v)
            \<and> calls_since v (snd (persistence (relational gen un) req sid user rt v))
                = Messages_insert (user_row sid user (message req))
                  # Sessions_insert (new_session (relational gen un) req sid user (store v))
                  # turn_calls sid user (message req) rt)
       \<and> (sid \<in> dom (chat_sessions (store v)) \<longrightarrow>
            fst (persistence (relational gen un) req sid user rt v)
            \<and> calls_since v (snd (persistence (relational gen un) req sid user rt v))
                = turn_calls sid user (message req) rt)"
proof -
  note c1 = persistMessages_calls [OF first]
  note c3 = persistMessages_calls [OF retry]
  have t2: "trace w2 = trace w1 @ [Sessions_insert (new_session E req sid user (store w1))]"
    using await_trace [OF create] .
  have A: "(\<exists>e. r1 = Some e \<and> names_session_table e) \<longrightarrow> (\<exists>e. r1 = Some e \<and> missing_session e)"
    using names_session_table_missing by blast
  have E: "r1 = None \<or> (\<exists>e. r1 = Some e \<and> \<not> missing_session e) \<longrightarrow>
            filter is_session_insert (calls_since w w') = []
            \<and> attempts sid user (message req) (calls_since w w') = 1
            \<and> ok = (r1 = None)"
    using persistence_no_recovery [OF run first] c1 by auto
  have w2: "trace w2 = trace w @ (calls_since w w1 @ [Sessions_insert (new_session E req sid user (store w1))])"
    using c1(1) t2 by simp
  have w3: "trace w3 = trace w @ (calls_since w w1 @ [Sessions_insert (new_session E req sid user (store w1))] @ calls_since w2 w3)"
    using c3(1) w2 by simp
  have cs2: "calls_since w w2 = calls_since w w1 @ [Sessions_insert (new_session E req sid user (store w1))]"
    using w2 by (rule calls_since_append)
  have cs3: "calls_since w w3 = calls_since w w1 @ [Sessions_insert (new_session E req sid user (store w1))] @ calls_since w2 w3"
    using w3 by (rule calls_since_append)
  have C: "(\<exists>e. r1 = Some e \<and> missing_session e) \<and> (\<exists>d err. r2 = Resolves d err) \<longrightarrow>
            calls_since w w' = calls_since w w1
              @ [Sessions_insert (new_session E req sid user (store w1))] @ calls_since w2 w3
            \<and> attempts sid user (message req) (calls_since w w1) = 1
            \<and> attempts sid user (message req) (calls_since w2 w3) = 1
            \<and> attempts sid user (message req) (calls_since w w') = 2
            \<and> ok = (r3 = None)"
  proof (intro impI, elim conjE exE)
    fix e d err assume h: "r1 = Some e" "missing_session e" "r2 = Resolves d err"
    from persistence_recovery(1) [OF run first [unfolded h(1)] h(2) create retry] h(3)
    have "w' = w3" "ok = (r3 = None)" by auto
    moreover from this cs3 have "calls_since w w' = calls_since w w1
              @ [Sessions_insert (new_session E req sid user (store w1))] @ calls_since w2 w3"
      by simp
    ultimately show "calls_since w w' = calls_since w w1
              @ [Sessions_insert (new_session E req sid user (store w1))] @ calls_since w2 w3
            \<and> attempts sid user (message req) (calls_since w w1) = 1
            \<and> attempts sid user (message req) (calls_since w2 w3) = 1
            \<and> attempts sid user (message req) (calls_since w w') = 2
            \<and> ok = (r3 = None)"
      using c1(2) c3(2) by (simp add: attempts_def)
  qed
  have D: "(\<exists>e. r1 = Some e \<and> missing_session e) \<and> (\<exists>e'. r2 = Rejects e') \<longrightarrow>
            attempts sid user (message req) (calls_since w w') = 1 \<and> \<not> ok"
  proof (intro impI, elim conjE exE)
    fix e e' assume h: "r1 = Some e" "missing_session e" "r2 = Rejects e'"
    from persistence_recovery(2) [OF run first [unfolded h(1)] h(2) create retry] h(3)
    have "w' = w2" "\<not> ok" by auto
    moreover from this cs2 have "calls_since w w' = calls_since w w1
              @ [Sessions_insert (new_session E req sid user (store w1))]"
      by simp
    ultimately show "attempts sid user (message req) (calls_since w w') = 1 \<and> \<not> ok"
      using c1(2) by (simp add: attempts_def)
  qed
  have B: "(\<exists>e. r1 = Some e \<and> missing_session e) \<longrightarrow>
            filter is_session_insert (calls_since w w')
              = [Sessions_insert (new_session E req sid user (store w1))]
            \<and> cs_id (new_session E req sid user (store w1)) = sid
            \<and> cs_user_id (new_session E req sid user (store w1)) = u_id user"
  proof (intro impI, elim exE conjE)
    fix e assume h: "r1 = Some e" "missing_session e"
    have "calls_since w w' = calls_since w w1 @ [Sessions_insert (new_session E req sid user (store w1))] @ calls_since w2 w3
        \<or> calls_since w w' = calls_since w w1 @ [Sessions_insert (new_session E req sid user (store w1))]"
    proof (cases r2)
      case (Rejects e')
      with persistence_recovery(2) [OF run first [unfolded h(1)] h(2) create retry] cs2
      show ?thesis by simp
    next
      case (Resolves d err)
      with persistence_recovery(1) [OF run first [unfolded h(1)] h(2) create retry] cs3
      show ?thesis by simp
    qed
    then show "filter is_session_insert (calls_since w w')
              = [Sessions_insert (new_session E req sid user (store w1))]
            \<and> cs_id (new_session E req sid user (store w1)) = sid
            \<and> cs_user_id (new_session E req sid user (store w1)) = u_id user"
      using c1(3) c3(3) by (auto simp: new_session_def)
  qed
  have F: "sid \<notin> dom (chat_sessions (store v)) \<longrightarrow>
            fst (persistence (relational gen un) req sid user rt v)
            \<and> calls_since v (snd (persistence (relational gen un) req sid user rt v))
                = Messages_insert (user_row sid user (message req))
                  # Sessions_insert (new_session (relational gen un) req sid user (store v))
                  # turn_calls sid user (message req) rt"
    using relational_missing_session(1,2) [OF _ surjective_pairing] by blast
  have G: "sid \<in> dom (chat_sessions (store v)) \<longrightarrow>
            fst (persistence (relational gen un) req sid user rt v)
            \<and> calls_since v (snd (persistence (relational gen un) req sid user rt v))
                = turn_calls sid user (message req) rt"
    using relational_existing_session [OF _ surjective_pairing] by blast
  from A B C D E F G show ?thesis by blast
qed

subsection \<open>Order of the two message rows\<close>

text \<open>
  Claim C8. In the calls of any request, on any collaborators, every insert of a model row
  comes directly after the insert of a user row of the same session and owner: no run of
  \<^verbatim>\<open>persistMessages\<close>, the one after the session insert included, writes the model message
  first.
\<close>

theorem user_row_written_before_model_row:
  "user_before_model None (calls_since w (snd (handler E req w)))"
proof -
  obtain user w1 where a: "authenticate E req w = (user, w1)" by (cases "authenticate E req w")
  obtain r w2 where b: "access_control E req user w1 = (r, w2)" by (cases "access_control E req user w1")
  from authenticate_calls [OF a] obtain c1 where
    t1: "trace w1 = trace w @ c1" and n1: "list_all (\<lambda>c. \<not> is_message_insert c) c1"
    by (cases "presented_token req") auto
  from access_control_calls [OF b] obtain c2 where
    t2: "trace w2 = trace w1 @ c2" and n2: "list_all (\<lambda>c. \<not> is_message_insert c) c2" by blast
  have pre: "list_all (\<lambda>c. \<not> is_message_insert c) (c1 @ c2)" using n1 n2 by simp
  have "\<exists>c3. trace (snd (handler E req w)) = trace w2 @ c3 \<and> user_before_model None c3"
  proof (cases "\<exists>p h. r = Inr (Allowed, p) \<and> history req = Some h")
    case True
    then obtain p h where r: "r = Inr (Allowed, p)" and h: "history req = Some h" by blast
    obtain res w3 where g: "generate_and_persist E req user p (format_history h) w2 = (res, w3)"
      by (cases "generate_and_persist E req user p (format_history h) w2")
    have "handler E req w = (res, w3)" using a b r h g by (simp add: handler_def)
    with generate_and_persist_order [OF g] show ?thesis by simp
  next
    case False
    then have "snd (handler E req w) = w2" using a b
      by (auto simp: handler_def split: sum.splits gate.splits option.splits)
    then show ?thesis by simp
  qed
  then obtain c3 where t3: "trace (snd (handler E req w)) = trace w2 @ c3"
    and o3: "user_before_model None c3" by blast
  have "calls_since w (snd (handler E req w)) = (c1 @ c2) @ c3"
    using t1 t2 t3 by (simp add: calls_since_def)
  with user_before_model_prepend [OF pre o3] show ?thesis by simp
qed



theorem user_row_written_before_model_row_witness:
  "user_before_model None
     (calls_since (start fresh_store)
        (snd (handler (relational answers (\<lambda>_. False)) first_question (start fresh_store))))"
  using user_row_written_before_model_row
    [of "start fresh_store" "relational answers (\<lambda>_. False)" first_question]
  by simp

subsection \<open>Access control on any collaborators and on the relational store\<close>

lemma access_control_limited:
  assumes "await E (Profiles_select (u_id u)) w1 = (Resolves d perr, w2)"
      and "\<not> hasUnlimitedAccess E (access_subject_of u (profile_of d))"
  shows "access_control E req (Some u) w1 =
           (case usage_gate E u w2 of
              (Inl ex, w3) \<Rightarrow> (Inl ex, w3)
            | (Inr g, w3) \<Rightarrow> (Inr (g, professionalRole_of req u (profile_of d)), w3))"
  using assms by (simp add: access_control_def)

lemma access_control_unlimited:
  assumes "await E (Profiles_select (u_id u)) w1 = (Resolves d perr, w2)"
      and "hasUnlimitedAccess E (access_subject_of u (profile_of d))"
  shows "access_control E req (Some u) w1 =
           (Inr (Allowed, professionalRole_of req u (profile_of d)), w2)"
  using assms by (simp add: access_control_def)

lemma usage_gate_denied:
  assumes "await E (Usage_select (u_id u)) w2 = (Resolves d' uerr, w3)"
      and "5 \<le> currentCount_of (usage_of d')"
  shows "usage_gate E u w2 = (Inr Denied, w3)"
  using assms by (simp add: usage_gate_def)

lemma usage_gate_allowed:
  assumes "await E (Usage_select (u_id u)) w2 = (Resolves d' uerr, w3)"
      and "currentCount_of (usage_of d') < 5"
      and "await E (increment_call (u_id u) (usage_of d')) w3 = (Resolves d'' werr, w4)"
  shows "usage_gate E u w2 = (Inr Allowed, w4)"
  using assms by (simp add: usage_gate_def)

lemma authenticate_Some:
  assumes "authenticate E req w = (Some u, w1)"
  shows "\<exists>t. presented_token req = Some t \<and> trace w1 = trace w @ [Auth_getUser t]"
  using assms authenticate_calls [OF assms]
  by (cases "presented_token req") (auto simp: authenticate_def)

lemma relational_authenticate:
  assumes "presented_token req = Some t" and "auth_users (store v) t = Some u"
  shows "authenticate (relational gen un) req v =
           (Some u, \<lparr>store = store v, trace = trace v @ [Auth_getUser t]\<rparr>)"
  using assms by (simp add: authenticate_def await_relational store_step_def)

lemma relational_profile:
  "\<exists>d perr. await (relational gen un) (Profiles_select uid) w =
      (Resolves d perr, \<lparr>store = store w, trace = trace w @ [Profiles_select uid]\<rparr>)
    \<and> profile_of d = profiles (store w) uid"
  by (cases "profiles (store w) uid")
     (simp_all add: await_relational store_step_def profile_of_def)

lemma relational_usage:
  "\<exists>d uerr. await (relational gen un) (Usage_select uid) w =
      (Resolves d uerr, \<lparr>store = store w, trace = trace w @ [Usage_select uid]\<rparr>)
    \<and> usage_of d = question_usage (store w) uid"
  by (cases "question_usage (store w) uid")
     (simp_all add: await_relational store_step_def usage_of_def)

lemma relational_increment:
  "await (relational gen un) (increment_call uid (question_usage (store w) uid)) w =
      (Resolves No_data None,
       \<lparr>store = (store w)\<lparr>question_usage := (question_usage (store w))
                   (uid \<mapsto> currentCount_of (question_usage (store w) uid) + 1)\<rparr>,
        trace = trace w @ [increment_call uid (question_usage (store w) uid)]\<rparr>)"
  by (cases "question_usage (store w) uid")
     (auto simp add: await_relational store_step_def increment_call_def currentCount_of_def)

lemma hasUnlimitedAccess_relational [simp]: "hasUnlimitedAccess (relational gen un) = un"
  by (simp add: relational_def)

lemma relational_access_denied:
  assumes "\<not> un (access_subject_of u (profiles (store w) (u_id u)))"
      and "5 \<le> currentCount_of (question_usage (store w) (u_id u))"
  shows "access_control (relational gen un) req (Some u) w =
           (Inr (Denied, professionalRole_of req u (profiles (store w) (u_id u))),
            \<lparr>store = store w, trace = trace w @ [Profiles_select (u_id u), Usage_select (u_id u)]\<rparr>)"
proof -
  from relational_profile [of gen un "u_id u" w] obtain d perr where
    p: "await (relational gen un) (Profiles_select (u_id u)) w =
      (Resolves d perr, \<lparr>store = store w, trace = trace w @ [Profiles_select (u_id u)]\<rparr>)"
    and pd: "profile_of d = profiles (store w) (u_id u)" by blast
  from relational_usage [of gen un "u_id u" "\<lparr>store = store w, trace = trace w @ [Profiles_select (u_id u)]\<rparr>"]
  obtain d' uerr where
    q: "await (relational gen un) (Usage_select (u_id u)) \<lparr>store = store w, trace = trace w @ [Profiles_select (u_id u)]\<rparr> =
      (Resolves d' uerr, \<lparr>store = store w, trace = trace w @ [Profiles_select (u_id u), Usage_select (u_id u)]\<rparr>)"
    and qd: "usage_of d' = question_usage (store w) (u_id u)" by auto
  have "usage_gate (relational gen un) u \<lparr>store = store w, trace = trace w @ [Profiles_select (u_id u)]\<rparr>
      = (Inr Denied, \<lparr>store = store w, trace = trace w @ [Profiles_select (u_id u), Usage_select (u_id u)]\<rparr>)"
    using usage_gate_denied [OF q] assms(2) qd by simp
  with access_control_limited [OF p, of req] assms(1) pd show ?thesis by simp
qed

lemma relational_access_allowed:
  assumes "\<not> un (access_subject_of u (profiles (store w) (u_id u)))"
      and "currentCount_of (question_usage (store w) (u_id u)) < 5"
  shows "access_control (relational gen un) req (Some u) w =
           (Inr (Allowed, professionalRole_of req u (profiles (store w) (u_id u))),
            \<lparr>store = (store w)\<lparr>question_usage := (question_usage (store w))
                   (u_id u \<mapsto> currentCount_of (question_usage (store w) (u_id u)) + 1)\<rparr>,
             trace = trace w @ [Profiles_select (u_id u), Usage_select (u_id u),
                                increment_call (u_id u) (question_usage (store w) (u_id u))]\<rparr>)"
proof -
  let ?w1 = "\<lparr>store = store w, trace = trace w @ [Profiles_select (u_id u)]\<rparr>"
  let ?w2 = "\<lparr>store = store w, trace = trace w @ [Profiles_select (u_id u), Usage_select (u_id u)]\<rparr>"
  from relational_profile [of gen un "u_id u" w] obtain d perr where
    p: "await (relational gen un) (Profiles_select (u_id u)) w = (Resolves d perr, ?w1)"
    and pd: "profile_of d = profiles (store w) (u_id u)" by blast
  from relational_usage [of gen un "u_id u" ?w1]
  obtain d' uerr where
    q: "await (relational gen un) (Usage_select (u_id u)) ?w1 = (Resolves d' uerr, ?w2)"
    and qd: "usage_of d' = question_usage (store w) (u_id u)" by auto
  from relational_increment [of gen un "u_id u" ?w2]
  have i: "await (relational gen un) (increment_call (u_id u) (usage_of d')) ?w2 =
      (Resolves No_data None,
       \<lparr>store = (store w)\<lparr>question_usage := (question_usage (store w))
                   (u_id u \<mapsto> currentCount_of (question_usage (store w) (u_id u)) + 1)\<rparr>,
        trace = trace w @ [Profiles_select (u_id u), Usage_select (u_id u),
                                increment_call (u_id u) (question_usage (store w) (u_id u))]\<rparr>)"
    by (simp add: qd)
  from usage_gate_allowed [OF q _ i] assms(2) qd
  have "usage_gate (relational gen un) u ?w1 = (Inr Allowed,
       \<lparr>store = (store w)\<lparr>question_usage := (question_usage (store w))
                   (u_id u \<mapsto> currentCount_of (question_usage (store w) (u_id u)) + 1)\<rparr>,
        trace = trace w @ [Profiles_select (u_id u), Usage_select (u_id u),
                                increment_call (u_id u) (question_usage (store w) (u_id u))]\<rparr>)"
    by simp
  with access_control_limited [OF p, of req] assms(1) pd show ?thesis by simp
qed

lemma await_keeps:
  assumes "\<forall>s c. \<not> usage_write c \<longrightarrow> f (snd (remote E s c)) = f s"
      and "await E c w = (r, w')" and "\<not> usage_write c"
  shows "f (store w') = f (store w)"
proof -
  from assms(2) have "store w' = snd (remote E (store w) c)"
    by (auto simp: await_def split: prod.splits)
  with assms(1,3) show ?thesis by simp
qed

lemma persistMessages_keeps:
  assumes K: "\<forall>s c. \<not> usage_write c \<longrightarrow> f (snd (remote E s c)) = f s"
      and run: "persistMessages E sid user msg rt w = (r, w')"
  shows "f (store w') = f (store w)"
  using run unfolding persistMessages_def
  by (auto split: prod.splits reply.splits dest!: await_keeps [OF K])

lemma persistence_keeps:
  assumes K: "\<forall>s c. \<not> usage_write c \<longrightarrow> f (snd (remote E s c)) = f s"
      and run: "persistence E req sid user rt w = (ok, w')"
  shows "f (store w') = f (store w)"
  using run unfolding persistence_def
  by (auto split: prod.splits reply.splits option.splits if_splits
      dest!: await_keeps [OF K] persistMessages_keeps [OF K])

lemma generate_and_persist_keeps:
  assumes K: "\<forall>s c. \<not> usage_write c \<longrightarrow> f (snd (remote E s c)) = f s"
      and run: "generate_and_persist E req user pr fh w = (res, w')"
  shows "f (store w') = f (store w)"
  using run unfolding generate_and_persist_def
  by (auto split: prod.splits reply.splits option.splits if_splits payload.splits
      dest!: await_keeps [OF K] persistence_keeps [OF K])

lemma store_step_keeps:
  "\<not> usage_write c \<Longrightarrow> identities (snd (store_step gen d c)) = identities d"
  by (cases c) (auto simp: store_step_def identities_def split: option.splits sum.splits)

lemma relational_keeps:
  assumes "generate_and_persist (relational gen un) req user pr fh w = (res, w')"
  shows "identities (store w') = identities (store w)"
  by (rule generate_and_persist_keeps [OF _ assms]) (simp add: relational_def store_step_keeps)

lemma generate_and_persist_not_denied:
  "fst (generate_and_persist E req user pr fh w) \<noteq> Limit_reached"
  unfolding generate_and_persist_def
  by (auto split: prod.splits reply.splits option.splits if_splits payload.splits)

lemma handler_allowed:
  assumes "authenticate E req w = (user, w1)"
      and "access_control E req user w1 = (Inr (Allowed, pr), w2)"
  shows "handler E req w =
           (case history req of
              None \<Rightarrow> (Server_error TypeError, w2)
            | Some h \<Rightarrow> generate_and_persist E req user pr (format_history h) w2)"
  using assms by (simp add: handler_def)

lemma handler_allowed_not_denied:
  assumes "authenticate E req w = (user, w1)"
      and "access_control E req user w1 = (Inr (Allowed, pr), w2)"
  shows "fst (handler E req w) \<noteq> Limit_reached"
  unfolding handler_allowed [OF assms]
  by (cases "history req") (simp_all add: generate_and_persist_not_denied)

lemma relational_handler_denied:
  assumes tok: "presented_token req = Some t" and usr: "auth_users (store v) t = Some u"
      and lim: "\<not> un (access_subject_of u (profiles (store v) (u_id u)))"
      and cnt: "5 \<le> currentCount_of (question_usage (store v) (u_id u))"
  shows "handler (relational gen un) req v =
           (Limit_reached,
            \<lparr>store = store v,
             trace = trace v @ [Auth_getUser t, Profiles_select (u_id u), Usage_select (u_id u)]\<rparr>)"
proof -
  let ?v1 = "\<lparr>store = store v, trace = trace v @ [Auth_getUser t]\<rparr>"
  note a = relational_authenticate [OF tok usr, of gen un]
  have "access_control (relational gen un) req (Some u) ?v1 =
           (Inr (Denied, professionalRole_of req u (profiles (store v) (u_id u))),
            \<lparr>store = store v, trace = trace v @ [Auth_getUser t, Profiles_select (u_id u), Usage_select (u_id u)]\<rparr>)"
    using relational_access_denied [of un u ?v1 gen req] lim cnt by simp
  with a show ?thesis by (simp add: handler_def)
qed

lemma relational_handler_allowed:
  assumes tok: "presented_token req = Some t" and usr: "auth_users (store v) t = Some u"
      and lim: "\<not> un (access_subject_of u (profiles (store v) (u_id u)))"
      and cnt: "currentCount_of (question_usage (store v) (u_id u)) < 5"
  shows "fst (handler (relational gen un) req v) \<noteq> Limit_reached"
    and "identities (store (snd (handler (relational gen un) req v))) =
           (auth_users (store v), profiles (store v),
            (question_usage (store v))
              (u_id u \<mapsto> currentCount_of (question_usage (store v) (u_id u)) + 1))"
proof -
  let ?v1 = "\<lparr>store = store v, trace = trace v @ [Auth_getUser t]\<rparr>"
  let ?v2 = "\<lparr>store = (store v)\<lparr>question_usage := (question_usage (store v))
                   (u_id u \<mapsto> currentCount_of (question_usage (store v) (u_id u)) + 1)\<rparr>,
             trace = trace v @ [Auth_getUser t, Profiles_select (u_id u), Usage_select (u_id u),
                                increment_call (u_id u) (question_usage (store v) (u_id u))]\<rparr>"
  note a = relational_authenticate [OF tok usr, of gen un]
  have b: "access_control (relational gen un) req (Some u) ?v1 =
           (Inr (Allowed, professionalRole_of req u (profiles (store v) (u_id u))), ?v2)"
    using relational_access_allowed [of un u ?v1 gen req] lim cnt by simp
  show "fst (handler (relational gen un) req v) \<noteq> Limit_reached"
    by (rule handler_allowed_not_denied [OF a b])
  have i2: "identities (store ?v2) = (auth_users (store v), profiles (store v),
            (question_usage (store v))
              (u_id u \<mapsto> currentCount_of (question_usage (store v) (u_id u)) + 1))"
    by (simp add: identities_def)
  show "identities (store (snd (handler (relational gen un) req v))) =
           (auth_users (store v), profiles (store v),
            (question_usage (store v))
              (u_id u \<mapsto> currentCount_of (question_usage (store v) (u_id u)) + 1))"
  proof (cases "history req")
    case None
    with handler_allowed [OF a b] i2 show ?thesis by simp
  next
    case (Some h)
    obtain res w' where g: "generate_and_persist (relational gen un) req (Some u)
        (professionalRole_of req u (profiles (store v) (u_id u))) (format_history h) ?v2 = (res, w')"
      by (cases "generate_and_persist (relational gen un) req (Some u)
        (professionalRole_of req u (profiles (store v) (u_id u))) (format_history h) ?v2")
    from relational_keeps [OF g] i2 have "identities (store w') = (auth_users (store v), profiles (store v),
            (question_usage (store v))
              (u_id u \<mapsto> currentCount_of (question_usage (store v) (u_id u)) + 1))" by simp
    with handler_allowed [OF a b] Some g show ?thesis by simp
  qed
qed

lemma serve_append:
  "serve E (xs @ ys) w =
     (case serve E xs w of (a, w1) \<Rightarrow> (case serve E ys w1 of (b, w2) \<Rightarrow> (a @ b, w2)))"
  by (induction xs arbitrary: w) (auto split: prod.splits)

lemma relational_serve_below:
  assumes "list_all (\<lambda>r. presented_token r = Some t) reqs"
      and "auth_users (store v) t = Some u"
      and "\<not> un (access_subject_of u (profiles (store v) (u_id u)))"
      and "currentCount_of (question_usage (store v) (u_id u)) + int (length reqs) \<le> 5"
  shows "list_all (\<lambda>r. r \<noteq> Limit_reached) (fst (serve (relational gen un) reqs v))
       \<and> auth_users (store (snd (serve (relational gen un) reqs v))) = auth_users (store v)
       \<and> profiles (store (snd (serve (relational gen un) reqs v))) = profiles (store v)
       \<and> currentCount_of (question_usage (store (snd (serve (relational gen un) reqs v))) (u_id u))
           = currentCount_of (question_usage (store v) (u_id u)) + int (length reqs)"
  using assms
proof (induction reqs arbitrary: v)
  case Nil
  then show ?case by simp
next
  case (Cons req reqs)
  from Cons.prems have tok: "presented_token req = Some t"
    and rest: "list_all (\<lambda>r. presented_token r = Some t) reqs"
    and cnt: "currentCount_of (question_usage (store v) (u_id u)) < 5" by simp_all
  obtain res v1 where h: "handler (relational gen un) req v = (res, v1)"
    by (cases "handler (relational gen un) req v")
  from relational_handler_allowed [where un = un and gen = gen, OF tok Cons.prems(2) Cons.prems(3) cnt] h
  have res: "res \<noteq> Limit_reached"
    and ids: "identities (store v1) = (auth_users (store v), profiles (store v),
            (question_usage (store v))
              (u_id u \<mapsto> currentCount_of (question_usage (store v) (u_id u)) + 1))"
    by simp_all
  from ids have au: "auth_users (store v1) = auth_users (store v)"
    and pr: "profiles (store v1) = profiles (store v)"
    and qu: "currentCount_of (question_usage (store v1) (u_id u)) = currentCount_of (question_usage (store v) (u_id u)) + 1"
    by (simp_all add: identities_def currentCount_of_def)
  have "list_all (\<lambda>r. r \<noteq> Limit_reached) (fst (serve (relational gen un) reqs v1))
       \<and> auth_users (store (snd (serve (relational gen un) reqs v1))) = auth_users (store v1)
       \<and> profiles (store (snd (serve (relational gen un) reqs v1))) = profiles (store v1)
       \<and> currentCount_of (question_usage (store (snd (serve (relational gen un) reqs v1))) (u_id u))
           = currentCount_of (question_usage (store v1) (u_id u)) + int (length reqs)"
    using Cons.prems au pr qu by (intro Cons.IH [OF rest]) simp_all
  with h res au pr qu show ?case by (auto split: prod.splits)
qed

lemma serve_length: "length (fst (serve E reqs w)) = length reqs"
proof (induction reqs arbitrary: w)
  case Nil
  then show ?case by simp
next
  case (Cons req reqs)
  obtain res w1 where h: "handler E req w = (res, w1)" by (cases "handler E req w")
  obtain ress w2 where s: "serve E reqs w1 = (ress, w2)" by (cases "serve E reqs w1")
  from Cons.IH [of w1] s have "length ress = length reqs" by simp
  with h s show ?case by simp
qed

lemma not_denied_map:
  "list_all (\<lambda>r. r \<noteq> Limit_reached) rs \<Longrightarrow> map (\<lambda>r. r = Limit_reached) rs = replicate (length rs) False"
  by (induction rs) simp_all

lemma currentCount_five: "currentCount_of q = 5 \<Longrightarrow> q = Some 5"
  by (cases q) (simp_all add: currentCount_of_def)

lemma relational_sixth_denied:
  assumes toks: "list_all (\<lambda>r. presented_token r = Some t) rqs" and six: "length rqs = 6"
      and usr: "auth_users (store v) t = Some a"
      and lim: "\<not> un (access_subject_of a (profiles (store v) (u_id a)))"
      and none: "question_usage (store v) (u_id a) = None"
  shows "map (\<lambda>r. r = Limit_reached) (fst (serve (relational gen un) rqs v))
           = [False, False, False, False, False, True]"
    and "question_usage (store (snd (serve (relational gen un) rqs v))) (u_id a) = Some 5"
proof -
  define xs where "xs = take 5 rqs"
  define r6 where "r6 = rqs ! 5"
  have split: "rqs = xs @ [r6]" and lx: "length xs = 5"
    using six unfolding xs_def r6_def
    by (simp_all add: take_Suc_conv_app_nth [of 5 rqs, symmetric] numeral_eq_Suc[symmetric])
  have tx: "list_all (\<lambda>r. presented_token r = Some t) xs" and t6: "presented_token r6 = Some t"
    using toks unfolding split by simp_all
  obtain ress v5 where s5: "serve (relational gen un) xs v = (ress, v5)"
    by (cases "serve (relational gen un) xs v")
  have c0: "currentCount_of (question_usage (store v) (u_id a)) + int (length xs) \<le> 5"
    using none lx by (simp add: currentCount_of_def)
  from relational_serve_below [where un = un and gen = gen, OF tx usr lim c0] s5
  have nd: "list_all (\<lambda>r. r \<noteq> Limit_reached) ress"
    and au: "auth_users (store v5) = auth_users (store v)"
    and pr: "profiles (store v5) = profiles (store v)"
    and cnt: "currentCount_of (question_usage (store v5) (u_id a)) = 5"
    using none lx by (simp_all add: currentCount_of_def)
  have lr: "length ress = 5" using serve_length [of "relational gen un" xs v] s5 lx by simp
  have usr5: "auth_users (store v5) t = Some a" using au usr by simp
  have lim5: "\<not> un (access_subject_of a (profiles (store v5) (u_id a)))" using pr lim by simp
  have cnt5: "5 \<le> currentCount_of (question_usage (store v5) (u_id a))" using cnt by simp
  note d = relational_handler_denied [where un = un and gen = gen, OF t6 usr5 lim5 cnt5]
  have all: "serve (relational gen un) rqs v =
      (ress @ [Limit_reached],
       \<lparr>store = store v5,
        trace = trace v5 @ [Auth_getUser t, Profiles_select (u_id a), Usage_select (u_id a)]\<rparr>)"
    unfolding split serve_append using s5 d by simp
  have "map (\<lambda>r. r = Limit_reached) ress = [False, False, False, False, False]"
    using not_denied_map [OF nd] lr by (simp add: numeral_eq_Suc)
  with all show "map (\<lambda>r. r = Limit_reached) (fst (serve (relational gen un) rqs v))
           = [False, False, False, False, False, True]" by simp
  from all currentCount_five [OF cnt]
  show "question_usage (store (snd (serve (relational gen un) rqs v))) (u_id a) = Some 5" by simp
qed

lemma first_question_token: "presented_token first_question = Some ''alice-token''"
  by (simp add: presented_token_def first_question_def bearer_token_def)

subsection \<open>The usage gate\<close>

text \<open>
  Claim C3. When a request authenticates as a user whom \<^verbatim>\<open>hasUnlimitedAccess\<close> does not
  accept and the usage row read for that user has a count of at least 5, the response is
  the 403 \<^verbatim>\<open>LIMIT_REACHED\<close>, the handler stops at the world left by the read, and its calls
  are the authentication, the profile read and the usage read: no usage write and no
  generation call. On the relational store the whole store is left as it was.
\<close>

theorem denied_at_five_without_write_or_generation:
  assumes auth: "authenticate E req w = (Some u, w1)"
      and prof: "await E (Profiles_select (u_id u)) w1 = (Resolves d perr, w2)"
      and limited: "\<not> hasUnlimitedAccess E (access_subject_of u (profile_of d))"
      and usage: "await E (Usage_select (u_id u)) w2 = (Resolves (Usage_data n) uerr, w3)"
      and count: "5 \<le> n"
  shows "handler E req w = (Limit_reached, w3)
       \<and> calls_since w w3 = calls_since w w1 @ [Profiles_select (u_id u), Usage_select (u_id u)]
       \<and> list_all (\<lambda>c. \<not> usage_write c \<and> \<not> is_generate c) (calls_since w w3)
       \<and> (presented_token rq = Some t \<and> auth_users (store v) t = Some a
            \<and> \<not> un (access_subject_of a (profiles (store v) (u_id a)))
            \<and> question_usage (store v) (u_id a) = Some m \<and> 5 \<le> m \<longrightarrow>
          fst (handler (relational gen un) rq v) = Limit_reached
          \<and> store (snd (handler (relational gen un) rq v)) = store v)"
proof -
  have "usage_gate E u w2 = (Inr Denied, w3)"
    using usage_gate_denied [OF usage] count by (simp add: usage_of_def currentCount_of_def)
  with access_control_limited [OF prof limited, of req]
  have "access_control E req (Some u) w1 = (Inr (Denied, professionalRole_of req u (profile_of d)), w3)"
    by simp
  with auth have h: "handler E req w = (Limit_reached, w3)"
    by (simp add: handler_def)
  from authenticate_Some [OF auth] obtain t' where t1: "trace w1 = trace w @ [Auth_getUser t']" by blast
  have t3: "trace w3 = trace w @ [Auth_getUser t', Profiles_select (u_id u), Usage_select (u_id u)]"
    using t1 await_trace [OF prof] await_trace [OF usage] by simp
  have c1: "calls_since w w1 = [Auth_getUser t']" using t1 by (rule calls_since_append)
  have c3: "calls_since w w3 = [Auth_getUser t', Profiles_select (u_id u), Usage_select (u_id u)]"
    using t3 by (rule calls_since_append)
  have rel: "presented_token rq = Some t \<and> auth_users (store v) t = Some a
            \<and> \<not> un (access_subject_of a (profiles (store v) (u_id a)))
            \<and> question_usage (store v) (u_id a) = Some m \<and> 5 \<le> m \<longrightarrow>
          fst (handler (relational gen un) rq v) = Limit_reached
          \<and> store (snd (handler (relational gen un) rq v)) = store v"
  proof (intro impI, elim conjE)
    assume tok: "presented_token rq = Some t" and usr: "auth_users (store v) t = Some a"
      and lim: "\<not> un (access_subject_of a (profiles (store v) (u_id a)))"
      and q: "question_usage (store v) (u_id a) = Some m" and m: "5 \<le> m"
    have "5 \<le> currentCount_of (question_usage (store v) (u_id a))"
      using q m by (simp add: currentCount_of_def)
    from relational_handler_denied [where un = un and gen = gen, OF tok usr lim this]
    show "fst (handler (relational gen un) rq v) = Limit_reached
          \<and> store (snd (handler (relational gen un) rq v)) = store v" by simp
  qed
  from h c1 c3 rel show ?thesis by simp
qed

theorem denied_at_five_without_write_or_generation_witness:
  "question_usage five_used ''u-alice'' = Some 5
   \<and> fst (handler (relational answers (\<lambda>_. False)) first_question (start five_used)) = Limit_reached
   \<and> store (snd (handler (relational answers (\<lambda>_. False)) first_question (start five_used)))
       = five_used"
proof -
  let ?R = "relational answers (\<lambda>_. False)"
  have usr: "auth_users (store (start five_used)) ''alice-token'' = Some alice"
    by (simp add: start_def five_used_def fresh_store_def)
  have q: "question_usage (store (start five_used)) (u_id alice) = Some 5"
    by (simp add: start_def five_used_def alice_def)
  note a = relational_authenticate [OF first_question_token usr, of answers "\<lambda>_. False"]
  from relational_profile [of answers "\<lambda>_. False" "u_id alice"
      "\<lparr>store = store (start five_used), trace = trace (start five_used) @ [Auth_getUser ''alice-token'']\<rparr>"]
  obtain d perr where p: "await ?R (Profiles_select (u_id alice))
      \<lparr>store = store (start five_used), trace = trace (start five_used) @ [Auth_getUser ''alice-token'']\<rparr>
      = (Resolves d perr, \<lparr>store = store (start five_used),
           trace = (trace (start five_used) @ [Auth_getUser ''alice-token'']) @ [Profiles_select (u_id alice)]\<rparr>)"
    by auto
  have u: "await ?R (Usage_select (u_id alice))
      \<lparr>store = store (start five_used),
           trace = (trace (start five_used) @ [Auth_getUser ''alice-token'']) @ [Profiles_select (u_id alice)]\<rparr>
      = (Resolves (Usage_data 5) None, \<lparr>store = store (start five_used),
           trace = ((trace (start five_used) @ [Auth_getUser ''alice-token'']) @ [Profiles_select (u_id alice)])
                   @ [Usage_select (u_id alice)]\<rparr>)"
    using q by (simp add: await_relational store_step_def)
  from denied_at_five_without_write_or_generation
    [where E = ?R and un = "\<lambda>_. False" and gen = answers and rq = first_question
       and v = "start five_used" and t = "''alice-token''" and a = alice and m = 5,
     OF a p _ u]
  have "handler ?R first_question (start five_used) =
          (Limit_reached, \<lparr>store = store (start five_used),
           trace = ((trace (start five_used) @ [Auth_getUser ''alice-token'']) @ [Profiles_select (u_id alice)])
                   @ [Usage_select (u_id alice)]\<rparr>)"
    by simp
  then show ?thesis using q by (simp add: start_def alice_def)
qed


lemma relational_handler_run:
  assumes tok: "presented_token req = Some t" and usr: "auth_users (store v) t = Some u"
      and lim: "\<not> un (access_subject_of u (profiles (store v) (u_id u)))"
      and cnt: "currentCount_of (question_usage (store v) (u_id u)) < 5"
      and hist: "history req = Some h"
  shows "handler (relational gen un) req v =
           generate_and_persist (relational gen un) req (Some u)
             (professionalRole_of req u (profiles (store v) (u_id u))) (format_history h)
             \<lparr>store = (store v)\<lparr>question_usage := (question_usage (store v))
                   (u_id u \<mapsto> currentCount_of (question_usage (store v) (u_id u)) + 1)\<rparr>,
              trace = trace v @ [Auth_getUser t, Profiles_select (u_id u), Usage_select (u_id u),
                                 increment_call (u_id u) (question_usage (store v) (u_id u))]\<rparr>"
proof -
  let ?v1 = "\<lparr>store = store v, trace = trace v @ [Auth_getUser t]\<rparr>"
  note a = relational_authenticate [OF tok usr, of gen un]
  have b: "access_control (relational gen un) req (Some u) ?v1 =
           (Inr (Allowed, professionalRole_of req u (profiles (store v) (u_id u))),
            \<lparr>store = (store v)\<lparr>question_usage := (question_usage (store v))
                   (u_id u \<mapsto> currentCount_of (question_usage (store v) (u_id u)) + 1)\<rparr>,
              trace = trace v @ [Auth_getUser t, Profiles_select (u_id u), Usage_select (u_id u),
                                 increment_call (u_id u) (question_usage (store v) (u_id u))]\<rparr>)"
    using relational_access_allowed [of un u ?v1 gen req] lim cnt by simp
  from handler_allowed [OF a b] hist show ?thesis by simp
qed

lemma generation_rejected:
  assumes "await E (GenerateMessage (gen_request_of req pr fh)) w = (Rejects e, w')"
  shows "generate_and_persist E req user pr fh w = (Server_error (Rejected e), w')"
  using assms by (simp add: generate_and_persist_def)

lemma relational_chain:
  assumes tok: "presented_token req = Some t" and usr: "auth_users (store v) t = Some u"
  obtains d perr d' uerr w1 w2 w3 w4 where
    "authenticate (relational gen un) req v = (Some u, w1)"
    "await (relational gen un) (Profiles_select (u_id u)) w1 = (Resolves d perr, w2)"
    "profile_of d = profiles (store v) (u_id u)"
    "await (relational gen un) (Usage_select (u_id u)) w2 = (Resolves d' uerr, w3)"
    "usage_of d' = question_usage (store v) (u_id u)"
    "await (relational gen un) (increment_call (u_id u) (usage_of d')) w3
       = (Resolves No_data None, w4)"
    "store w4 = (store v)\<lparr>question_usage := (question_usage (store v))
                   (u_id u \<mapsto> currentCount_of (question_usage (store v) (u_id u)) + 1)\<rparr>"
proof -
  let ?v1 = "\<lparr>store = store v, trace = trace v @ [Auth_getUser t]\<rparr>"
  let ?v2 = "\<lparr>store = store v, trace = trace ?v1 @ [Profiles_select (u_id u)]\<rparr>"
  let ?v3 = "\<lparr>store = store v, trace = trace ?v2 @ [Usage_select (u_id u)]\<rparr>"
  note a = relational_authenticate [OF tok usr, of gen un]
  from relational_profile [of gen un "u_id u" ?v1] obtain d perr where
    p: "await (relational gen un) (Profiles_select (u_id u)) ?v1 = (Resolves d perr, ?v2)"
    and pd: "profile_of d = profiles (store v) (u_id u)" by auto
  from relational_usage [of gen un "u_id u" ?v2] obtain d' uerr where
    q: "await (relational gen un) (Usage_select (u_id u)) ?v2 = (Resolves d' uerr, ?v3)"
    and qd: "usage_of d' = question_usage (store v) (u_id u)" by auto
  from relational_increment [of gen un "u_id u" ?v3]
  have i: "await (relational gen un) (increment_call (u_id u) (usage_of d')) ?v3 =
      (Resolves No_data None,
       \<lparr>store = (store v)\<lparr>question_usage := (question_usage (store v))
                   (u_id u \<mapsto> currentCount_of (question_usage (store v) (u_id u)) + 1)\<rparr>,
        trace = trace ?v3 @ [increment_call (u_id u) (question_usage (store v) (u_id u))]\<rparr>)"
    by (simp add: qd)
  show thesis by (rule that [OF a p pd q qd i]) simp
qed

lemma fresh_store_alice:
  "auth_users (store (start fresh_store)) ''alice-token'' = Some alice"
  "question_usage (store (start fresh_store)) (u_id alice) = None"
  "profiles (store (start fresh_store)) (u_id alice) = None"
  "u_id alice = ''u-alice''"
  "question_usage (store (start fresh_store)) ''u-alice'' = None"
  by (simp_all add: start_def fresh_store_def alice_def)

text \<open>
  Claim C4. When a request authenticates as a user whom \<^verbatim>\<open>hasUnlimitedAccess\<close> does not
  accept, the usage read gives a count below 5 and the write that follows resolves, access
  control allows the request and the response is not \<^verbatim>\<open>LIMIT_REACHED\<close>; the write is the
  insert of a row with count 1 when the read found no row, and the update to the count plus
  one when it found a row. On the relational store: a request of an identity without a
  usage row is allowed and leaves the count 1, a request of an identity with a count below
  5 is allowed and leaves the count plus one, and of six requests in a row by an identity
  without a usage row the first five are not denied, the sixth is, and the count ends at 5.
\<close>

theorem below_threshold_increments_and_allows:
  assumes auth: "authenticate E req w = (Some u, w1)"
      and prof: "await E (Profiles_select (u_id u)) w1 = (Resolves d perr, w2)"
      and limited: "\<not> hasUnlimitedAccess E (access_subject_of u (profile_of d))"
      and usage: "await E (Usage_select (u_id u)) w2 = (Resolves d' uerr, w3)"
      and below: "currentCount_of (usage_of d') < 5"
      and incr: "await E (increment_call (u_id u) (usage_of d')) w3 = (Resolves d'' werr, w4)"
  shows "access_control E req (Some u) w1
           = (Inr (Allowed, professionalRole_of req u (profile_of d)), w4)
       \<and> fst (handler E req w) \<noteq> Limit_reached
       \<and> (usage_of d' = None \<longrightarrow>
            calls_since w1 w4
              = [Profiles_select (u_id u), Usage_select (u_id u), Usage_insert (u_id u) 1])
       \<and> (\<forall>n. usage_of d' = Some n \<longrightarrow>
            calls_since w1 w4
              = [Profiles_select (u_id u), Usage_select (u_id u), Usage_update (u_id u) (n + 1)])
       \<and> (presented_token rq = Some t \<and> auth_users (store v) t = Some a
            \<and> \<not> un (access_subject_of a (profiles (store v) (u_id a))) \<longrightarrow>
            (question_usage (store v) (u_id a) = None \<longrightarrow>
               fst (handler (relational gen un) rq v) \<noteq> Limit_reached
               \<and> question_usage (store (snd (handler (relational gen un) rq v))) (u_id a) = Some 1)
          \<and> (\<forall>n. question_usage (store v) (u_id a) = Some n \<and> n < 5 \<longrightarrow>
               fst (handler (relational gen un) rq v) \<noteq> Limit_reached
               \<and> question_usage (store (snd (handler (relational gen un) rq v))) (u_id a)
                   = Some (n + 1))
          \<and> (question_usage (store v) (u_id a) = None
               \<and> list_all (\<lambda>r. presented_token r = Some t) rqs \<and> length rqs = 6 \<longrightarrow>
               map (\<lambda>r. r = Limit_reached) (fst (serve (relational gen un) rqs v))
                 = [False, False, False, False, False, True]
               \<and> question_usage (store (snd (serve (relational gen un) rqs v))) (u_id a)
                   = Some 5))"
proof -
  have gate: "usage_gate E u w2 = (Inr Allowed, w4)"
    by (rule usage_gate_allowed [OF usage below incr])
  with access_control_limited [OF prof limited, of req]
  have ac: "access_control E req (Some u) w1
           = (Inr (Allowed, professionalRole_of req u (profile_of d)), w4)" by simp
  have nd: "fst (handler E req w) \<noteq> Limit_reached"
    by (rule handler_allowed_not_denied [OF auth ac])
  have t4: "trace w4 = trace w1 @ [Profiles_select (u_id u), Usage_select (u_id u),
      increment_call (u_id u) (usage_of d')]"
    using await_trace [OF prof] await_trace [OF usage] await_trace [OF incr] by simp
  have c4: "calls_since w1 w4 = [Profiles_select (u_id u), Usage_select (u_id u),
      increment_call (u_id u) (usage_of d')]"
    using t4 by (rule calls_since_append)
  have ins: "usage_of d' = None \<longrightarrow>
            calls_since w1 w4
              = [Profiles_select (u_id u), Usage_select (u_id u), Usage_insert (u_id u) 1]"
    using c4 by (simp add: increment_call_def)
  have upd: "\<forall>n. usage_of d' = Some n \<longrightarrow>
            calls_since w1 w4
              = [Profiles_select (u_id u), Usage_select (u_id u), Usage_update (u_id u) (n + 1)]"
    using c4 by (simp add: increment_call_def currentCount_of_def)
  have rel: "presented_token rq = Some t \<and> auth_users (store v) t = Some a
            \<and> \<not> un (access_subject_of a (profiles (store v) (u_id a))) \<longrightarrow>
            (question_usage (store v) (u_id a) = None \<longrightarrow>
               fst (handler (relational gen un) rq v) \<noteq> Limit_reached
               \<and> question_usage (store (snd (handler (relational gen un) rq v))) (u_id a) = Some 1)
          \<and> (\<forall>n. question_usage (store v) (u_id a) = Some n \<and> n < 5 \<longrightarrow>
               fst (handler (relational gen un) rq v) \<noteq> Limit_reached
               \<and> question_usage (store (snd (handler (relational gen un) rq v))) (u_id a)
                   = Some (n + 1))
          \<and> (question_usage (store v) (u_id a) = None
               \<and> list_all (\<lambda>r. presented_token r = Some t) rqs \<and> length rqs = 6 \<longrightarrow>
               map (\<lambda>r. r = Limit_reached) (fst (serve (relational gen un) rqs v))
                 = [False, False, False, False, False, True]
               \<and> question_usage (store (snd (serve (relational gen un) rqs v))) (u_id a)
                   = Some 5)"
  proof (intro impI, elim conjE)
    assume tok: "presented_token rq = Some t" and usr: "auth_users (store v) t = Some a"
      and lim: "\<not> un (access_subject_of a (profiles (store v) (u_id a)))"
    have step: "fst (handler (relational gen un) rq v) \<noteq> Limit_reached
        \<and> question_usage (store (snd (handler (relational gen un) rq v))) (u_id a)
            = Some (currentCount_of (question_usage (store v) (u_id a)) + 1)"
      if "currentCount_of (question_usage (store v) (u_id a)) < 5"
      using relational_handler_allowed [where un = un and gen = gen, OF tok usr lim that]
      by (simp add: identities_def)
    have one: "question_usage (store v) (u_id a) = None \<longrightarrow>
               fst (handler (relational gen un) rq v) \<noteq> Limit_reached
               \<and> question_usage (store (snd (handler (relational gen un) rq v))) (u_id a) = Some 1"
      using step by (simp add: currentCount_of_def)
    have more: "\<forall>n. question_usage (store v) (u_id a) = Some n \<and> n < 5 \<longrightarrow>
               fst (handler (relational gen un) rq v) \<noteq> Limit_reached
               \<and> question_usage (store (snd (handler (relational gen un) rq v))) (u_id a)
                   = Some (n + 1)"
      using step by (simp add: currentCount_of_def)
    have six: "question_usage (store v) (u_id a) = None
               \<and> list_all (\<lambda>r. presented_token r = Some t) rqs \<and> length rqs = 6 \<longrightarrow>
               map (\<lambda>r. r = Limit_reached) (fst (serve (relational gen un) rqs v))
                 = [False, False, False, False, False, True]
               \<and> question_usage (store (snd (serve (relational gen un) rqs v))) (u_id a)
                   = Some 5"
      using relational_sixth_denied [where un = un and gen = gen, OF _ _ usr lim] by blast
    from one more six show "(question_usage (store v) (u_id a) = None \<longrightarrow>
               fst (handler (relational gen un) rq v) \<noteq> Limit_reached
               \<and> question_usage (store (snd (handler (relational gen un) rq v))) (u_id a) = Some 1)
          \<and> (\<forall>n. question_usage (store v) (u_id a) = Some n \<and> n < 5 \<longrightarrow>
               fst (handler (relational gen un) rq v) \<noteq> Limit_reached
               \<and> question_usage (store (snd (handler (relational gen un) rq v))) (u_id a)
                   = Some (n + 1))
          \<and> (question_usage (store v) (u_id a) = None
               \<and> list_all (\<lambda>r. presented_token r = Some t) rqs \<and> length rqs = 6 \<longrightarrow>
               map (\<lambda>r. r = Limit_reached) (fst (serve (relational gen un) rqs v))
                 = [False, False, False, False, False, True]
               \<and> question_usage (store (snd (serve (relational gen un) rqs v))) (u_id a)
                   = Some 5)" by blast
  qed
  from ac nd ins upd rel show ?thesis by blast
qed

theorem below_threshold_increments_and_allows_witness:
  "question_usage fresh_store ''u-alice'' = None
   \<and> fst (handler (relational answers (\<lambda>_. False)) first_question (start fresh_store))
       \<noteq> Limit_reached
   \<and> question_usage (store (snd (handler (relational answers (\<lambda>_. False)) first_question
        (start fresh_store)))) ''u-alice'' = Some 1
   \<and> map (\<lambda>r. r = Limit_reached)
        (fst (serve (relational answers (\<lambda>_. False)) six_questions (start fresh_store)))
       = [False, False, False, False, False, True]"
proof (rule relational_chain
    [OF first_question_token fresh_store_alice(1), where gen = answers and un = "\<lambda>_. False"])
  let ?R = "relational answers (\<lambda>_. False)"
  fix d perr d' uerr w1 w2 w3 w4
  assume a: "authenticate ?R first_question (start fresh_store) = (Some alice, w1)"
    and p: "await ?R (Profiles_select (u_id alice)) w1 = (Resolves d perr, w2)"
    and q: "await ?R (Usage_select (u_id alice)) w2 = (Resolves d' uerr, w3)"
    and qd: "usage_of d' = question_usage (store (start fresh_store)) (u_id alice)"
    and i: "await ?R (increment_call (u_id alice) (usage_of d')) w3 = (Resolves No_data None, w4)"
  have below: "currentCount_of (usage_of d') < 5"
    by (simp add: qd fresh_store_alice currentCount_of_def)
  have toks: "list_all (\<lambda>r. presented_token r = Some ''alice-token'') six_questions"
    by (simp add: six_questions_def first_question_token list_all_iff)
  have len: "length six_questions = 6" by (simp add: six_questions_def)
  have lim: "\<not> hasUnlimitedAccess ?R (access_subject_of alice (profile_of d))" by simp
  note inst = below_threshold_increments_and_allows
    [where E = ?R and un = "\<lambda>_. False" and gen = answers and rq = first_question
       and v = "start fresh_store" and t = "''alice-token''" and a = alice
       and rqs = six_questions,
     OF a p lim q below i]
  have H: "presented_token first_question = Some ''alice-token''
      \<and> auth_users (store (start fresh_store)) ''alice-token'' = Some alice
      \<and> \<not> (\<lambda>_. False) (access_subject_of alice (profiles (store (start fresh_store)) (u_id alice)))"
    using first_question_token fresh_store_alice(1) by simp
  note rel = inst [THEN conjunct2, THEN conjunct2, THEN conjunct2, THEN conjunct2, THEN mp, OF H]
  from rel [THEN conjunct1, THEN mp, OF fresh_store_alice(2)]
  have one: "fst (handler ?R first_question (start fresh_store)) \<noteq> Limit_reached"
    "question_usage (store (snd (handler ?R first_question (start fresh_store)))) ''u-alice'' = Some 1"
    by (simp_all add: fresh_store_alice(4))
  from rel [THEN conjunct2, THEN conjunct2, THEN mp] fresh_store_alice(2) toks len
  have six: "map (\<lambda>r. r = Limit_reached) (fst (serve ?R six_questions (start fresh_store)))
       = [False, False, False, False, False, True]"
    by blast
  have "question_usage fresh_store ''u-alice'' = None" by (simp add: fresh_store_def)
  with one six show "question_usage fresh_store ''u-alice'' = None
   \<and> fst (handler ?R first_question (start fresh_store)) \<noteq> Limit_reached
   \<and> question_usage (store (snd (handler ?R first_question (start fresh_store)))) ''u-alice'' = Some 1
   \<and> map (\<lambda>r. r = Limit_reached) (fst (serve ?R six_questions (start fresh_store)))
       = [False, False, False, False, False, True]"
    by simp
qed

text \<open>
  Claim C9. Take a request that authenticates as a user whom \<^verbatim>\<open>hasUnlimitedAccess\<close> does not
  accept, with a usage count below 5, a usage write that resolves, a history, and a
  generation call that is rejected. The response is the 500 built from that error, and the
  calls after the authentication are the profile read, the usage read, the usage write and
  the generation call, in this order and with nothing after: the write comes first and no
  call undoes it. On the relational store the count of the identity is one more than before
  the request although the request failed.
\<close>

theorem failed_generation_keeps_the_increment:
  assumes auth: "authenticate E req w = (Some u, w1)"
      and prof: "await E (Profiles_select (u_id u)) w1 = (Resolves d perr, w2)"
      and limited: "\<not> hasUnlimitedAccess E (access_subject_of u (profile_of d))"
      and usage: "await E (Usage_select (u_id u)) w2 = (Resolves d' uerr, w3)"
      and below: "currentCount_of (usage_of d') < 5"
      and incr: "await E (increment_call (u_id u) (usage_of d')) w3 = (Resolves d'' werr, w4)"
      and hist: "history req = Some h"
      and fails: "await E (GenerateMessage (gen_request_of req
                    (professionalRole_of req u (profile_of d)) (format_history h))) w4
                  = (Rejects e, w5)"
  shows "handler E req w = (Server_error (Rejected e), w5)
       \<and> calls_since w1 w5
           = [Profiles_select (u_id u), Usage_select (u_id u),
              increment_call (u_id u) (usage_of d'),
              GenerateMessage (gen_request_of req (professionalRole_of req u (profile_of d))
                (format_history h))]
       \<and> usage_write (increment_call (u_id u) (usage_of d'))
       \<and> (presented_token rq = Some t \<and> auth_users (store v) t = Some a
            \<and> \<not> un (access_subject_of a (profiles (store v) (u_id a)))
            \<and> currentCount_of (question_usage (store v) (u_id a)) < 5
            \<and> history rq = Some hh
            \<and> gen (gen_request_of rq (professionalRole_of rq a (profiles (store v) (u_id a)))
                  (format_history hh)) = Inl e' \<longrightarrow>
            fst (handler (relational gen un) rq v) = Server_error (Rejected e')
            \<and> question_usage (store (snd (handler (relational gen un) rq v))) (u_id a)
                = Some (currentCount_of (question_usage (store v) (u_id a)) + 1))"
proof -
  have gate: "usage_gate E u w2 = (Inr Allowed, w4)"
    by (rule usage_gate_allowed [OF usage below incr])
  with access_control_limited [OF prof limited, of req]
  have ac: "access_control E req (Some u) w1
           = (Inr (Allowed, professionalRole_of req u (profile_of d)), w4)" by simp
  from handler_allowed [OF auth ac] hist generation_rejected [OF fails]
  have h: "handler E req w = (Server_error (Rejected e), w5)" by simp
  have t5: "trace w5 = trace w1 @ [Profiles_select (u_id u), Usage_select (u_id u),
      increment_call (u_id u) (usage_of d'),
      GenerateMessage (gen_request_of req (professionalRole_of req u (profile_of d))
                (format_history h))]"
    using await_trace [OF prof] await_trace [OF usage] await_trace [OF incr]
      await_trace [OF fails] by simp
  have c5: "calls_since w1 w5 = [Profiles_select (u_id u), Usage_select (u_id u),
      increment_call (u_id u) (usage_of d'),
      GenerateMessage (gen_request_of req (professionalRole_of req u (profile_of d))
                (format_history h))]"
    using t5 by (rule calls_since_append)
  have uw: "usage_write (increment_call (u_id u) (usage_of d'))"
    by (cases "usage_of d'") (simp_all add: increment_call_def)
  have rel: "presented_token rq = Some t \<and> auth_users (store v) t = Some a
            \<and> \<not> un (access_subject_of a (profiles (store v) (u_id a)))
            \<and> currentCount_of (question_usage (store v) (u_id a)) < 5
            \<and> history rq = Some hh
            \<and> gen (gen_request_of rq (professionalRole_of rq a (profiles (store v) (u_id a)))
                  (format_history hh)) = Inl e' \<longrightarrow>
            fst (handler (relational gen un) rq v) = Server_error (Rejected e')
            \<and> question_usage (store (snd (handler (relational gen un) rq v))) (u_id a)
                = Some (currentCount_of (question_usage (store v) (u_id a)) + 1)"
  proof (intro impI, elim conjE)
    assume tok: "presented_token rq = Some t" and usr: "auth_users (store v) t = Some a"
      and lim: "\<not> un (access_subject_of a (profiles (store v) (u_id a)))"
      and cnt: "currentCount_of (question_usage (store v) (u_id a)) < 5"
      and hh: "history rq = Some hh"
      and g: "gen (gen_request_of rq (professionalRole_of rq a (profiles (store v) (u_id a)))
                  (format_history hh)) = Inl e'"
    have "fst (handler (relational gen un) rq v) = Server_error (Rejected e')"
      unfolding relational_handler_run [where un = un and gen = gen, OF tok usr lim cnt hh]
      using g by (simp add: generate_and_persist_def await_relational store_step_def)
    moreover have "question_usage (store (snd (handler (relational gen un) rq v))) (u_id a)
                = Some (currentCount_of (question_usage (store v) (u_id a)) + 1)"
      using relational_handler_allowed(2) [where un = un and gen = gen, OF tok usr lim cnt]
      by (simp add: identities_def)
    ultimately show "fst (handler (relational gen un) rq v) = Server_error (Rejected e')
            \<and> question_usage (store (snd (handler (relational gen un) rq v))) (u_id a)
                = Some (currentCount_of (question_usage (store v) (u_id a)) + 1)" by simp
  qed
  from h c5 uw rel show ?thesis by blast
qed

theorem failed_generation_keeps_the_increment_witness:
  "question_usage fresh_store ''u-alice'' = None
   \<and> fst (handler (relational failing (\<lambda>_. False)) first_question (start fresh_store))
       = Server_error (Rejected outage)
   \<and> question_usage (store (snd (handler (relational failing (\<lambda>_. False)) first_question
        (start fresh_store)))) ''u-alice'' = Some 1"
proof (rule relational_chain
    [OF first_question_token fresh_store_alice(1), where gen = failing and un = "\<lambda>_. False"])
  let ?R = "relational failing (\<lambda>_. False)"
  fix d perr d' uerr w1 w2 w3 w4
  assume a: "authenticate ?R first_question (start fresh_store) = (Some alice, w1)"
    and p: "await ?R (Profiles_select (u_id alice)) w1 = (Resolves d perr, w2)"
    and pd: "profile_of d = profiles (store (start fresh_store)) (u_id alice)"
    and q: "await ?R (Usage_select (u_id alice)) w2 = (Resolves d' uerr, w3)"
    and qd: "usage_of d' = question_usage (store (start fresh_store)) (u_id alice)"
    and i: "await ?R (increment_call (u_id alice) (usage_of d')) w3 = (Resolves No_data None, w4)"
  have below: "currentCount_of (usage_of d') < 5"
    by (simp add: qd fresh_store_alice currentCount_of_def)
  have lim: "\<not> hasUnlimitedAccess ?R (access_subject_of alice (profile_of d))" by simp
  have hist: "history first_question = Some []" by (simp add: first_question_def)
  have f: "await ?R (GenerateMessage (gen_request_of first_question
              (professionalRole_of first_question alice (profile_of d)) (format_history []))) w4
           = (Rejects outage, \<lparr>store = store w4, trace = trace w4 @ [GenerateMessage
                (gen_request_of first_question
                  (professionalRole_of first_question alice (profile_of d))
                  (format_history []))]\<rparr>)"
    by (simp add: await_relational store_step_def failing_def)
  note inst = failed_generation_keeps_the_increment
    [where E = ?R and un = "\<lambda>_. False" and gen = failing and rq = first_question
       and v = "start fresh_store" and t = "''alice-token''" and a = alice
       and hh = "[]" and e' = outage,
     OF a p lim q below i hist f]
  have H: "presented_token first_question = Some ''alice-token''
      \<and> auth_users (store (start fresh_store)) ''alice-token'' = Some alice
      \<and> \<not> (\<lambda>_. False) (access_subject_of alice (profiles (store (start fresh_store)) (u_id alice)))
      \<and> currentCount_of (question_usage (store (start fresh_store)) (u_id alice)) < 5
      \<and> history first_question = Some []
      \<and> failing (gen_request_of first_question
           (professionalRole_of first_question alice (profiles (store (start fresh_store)) (u_id alice)))
           (format_history [])) = Inl outage"
    using first_question_token fresh_store_alice(1,2) hist
    by (simp add: currentCount_of_def failing_def)
  from inst [THEN conjunct2, THEN conjunct2, THEN conjunct2, THEN mp, OF H]
  have "fst (handler ?R first_question (start fresh_store)) = Server_error (Rejected outage)"
    and "question_usage (store (snd (handler ?R first_question (start fresh_store)))) ''u-alice'' = Some 1"
    by (simp_all add: fresh_store_alice(2,4,5) currentCount_of_def)
  moreover have "question_usage fresh_store ''u-alice'' = None" by (simp add: fresh_store_def)
  ultimately show "question_usage fresh_store ''u-alice'' = None
   \<and> fst (handler ?R first_question (start fresh_store)) = Server_error (Rejected outage)
   \<and> question_usage (store (snd (handler ?R first_question (start fresh_store)))) ''u-alice'' = Some 1"
    by simp
qed

subsection \<open>Identities with unlimited access\<close>

lemma chat_call_not_usage: "chat_call c \<Longrightarrow> \<not> usage_call c \<and> \<not> usage_call_of i c"
  by (cases c) simp_all

lemma persistence_chat_calls:
  assumes "persistence E req sid user rt w = (ok, w')"
  shows "\<exists>cs. trace w' = trace w @ cs \<and> list_all chat_call cs"
  using assms unfolding persistence_def
  by (auto split: prod.splits option.splits if_splits reply.splits
      dest!: persistMessages_trace await_trace simp: turn_calls_def)

lemma generate_and_persist_chat_calls:
  assumes "generate_and_persist E req user pr fh w = (res, w')"
  shows "\<exists>cs. trace w' = trace w @ cs \<and> list_all chat_call cs"
  using assms unfolding generate_and_persist_def
  by (auto split: prod.splits option.splits if_splits reply.splits payload.splits
        dest!: persistence_chat_calls await_trace)

lemma access_control_other_identity:
  assumes "access_control E req user w = (r, w')"
      and "\<forall>subj. u_id (subj_user subj) = i \<longrightarrow> hasUnlimitedAccess E subj"
  shows "\<exists>cs. trace w' = trace w @ cs \<and> list_all (\<lambda>c. \<not> usage_call_of i c) cs"
proof (cases user)
  case None
  with assms(1) show ?thesis by (simp add: access_control_def)
next
  case (Some u)
  obtain rp w1 where p: "await E (Profiles_select (u_id u)) w = (rp, w1)"
    by (cases "await E (Profiles_select (u_id u)) w")
  note t1 = await_trace [OF p]
  show ?thesis
  proof (cases "\<exists>d perr. rp = Resolves d perr \<and> \<not> hasUnlimitedAccess E (access_subject_of u (profile_of d))")
    case False
    with assms(1) Some p have "w' = w1"
      by (cases rp) (auto simp: access_control_def)
    with t1 show ?thesis by simp
  next
    case True
    then obtain d perr where rp: "rp = Resolves d perr"
      and nu: "\<not> hasUnlimitedAccess E (access_subject_of u (profile_of d))" by blast
    from nu assms(2) have other: "u_id u \<noteq> i"
      by (auto simp: access_subject_of_def)
    obtain g w2 where ug: "usage_gate E u w1 = (g, w2)" by (cases "usage_gate E u w1")
    from assms(1) Some p rp nu ug have w': "w' = w2"
      by (auto simp: access_control_def Let_def split: sum.splits)
    from ug other have "\<exists>cs. trace w2 = trace w1 @ cs \<and> list_all (\<lambda>c. \<not> usage_call_of i c) cs"
      unfolding usage_gate_def increment_call_def
      by (auto split: option.splits prod.splits reply.splits if_splits dest!: await_trace)
    with t1 w' show ?thesis by auto
  qed
qed

lemma handler_stages:
  obtains user w1 r w2 where
    "authenticate E req w = (user, w1)" "access_control E req user w1 = (r, w2)"
    "(\<exists>p h. r = Inr (Allowed, p) \<and> history req = Some h
        \<and> handler E req w = generate_and_persist E req user p (format_history h) w2)
     \<or> snd (handler E req w) = w2"
proof -
  obtain user w1 where a: "authenticate E req w = (user, w1)" by (cases "authenticate E req w")
  obtain r w2 where b: "access_control E req user w1 = (r, w2)" by (cases "access_control E req user w1")
  have "(\<exists>p h. r = Inr (Allowed, p) \<and> history req = Some h
        \<and> handler E req w = generate_and_persist E req user p (format_history h) w2)
     \<or> snd (handler E req w) = w2"
    using a b by (auto simp: handler_def split: sum.splits gate.splits option.splits)
  with a b that show thesis by blast
qed

lemma handler_other_identity:
  assumes H: "\<forall>subj. u_id (subj_user subj) = i \<longrightarrow> hasUnlimitedAccess E subj"
  shows "\<exists>cs. trace (snd (handler E req w)) = trace w @ cs \<and> list_all (\<lambda>c. \<not> usage_call_of i c) cs"
proof (rule handler_stages [of E req w])
  fix user w1 r w2
  assume a: "authenticate E req w = (user, w1)" and b: "access_control E req user w1 = (r, w2)"
    and c: "(\<exists>p h. r = Inr (Allowed, p) \<and> history req = Some h
        \<and> handler E req w = generate_and_persist E req user p (format_history h) w2)
     \<or> snd (handler E req w) = w2"
  from authenticate_calls [OF a] obtain c1 where
    t1: "trace w1 = trace w @ c1" and n1: "list_all (\<lambda>c. \<not> usage_call_of i c) c1"
    by (cases "presented_token req") auto
  from access_control_other_identity [OF b H] obtain c2 where
    t2: "trace w2 = trace w1 @ c2" and n2: "list_all (\<lambda>c. \<not> usage_call_of i c) c2" by blast
  have "\<exists>c3. trace (snd (handler E req w)) = trace w2 @ c3 \<and> list_all (\<lambda>c. \<not> usage_call_of i c) c3"
  proof (rule disjE [OF c])
    assume "\<exists>p h. r = Inr (Allowed, p) \<and> history req = Some h
        \<and> handler E req w = generate_and_persist E req user p (format_history h) w2"
    then obtain p h where g: "handler E req w = generate_and_persist E req user p (format_history h) w2"
      by blast
    from generate_and_persist_chat_calls [OF surjective_pairing, of E req user p "format_history h" w2] g
    obtain cs where "trace (snd (handler E req w)) = trace w2 @ cs" "list_all chat_call cs" by auto
    then show ?thesis using chat_call_not_usage by (auto simp: list_all_iff)
  next
    assume "snd (handler E req w) = w2"
    then show ?thesis by simp
  qed
  then obtain c3 where t3: "trace (snd (handler E req w)) = trace w2 @ c3"
    and n3: "list_all (\<lambda>c. \<not> usage_call_of i c) c3" by blast
  from t1 t2 t3 n1 n2 n3 show ?thesis by simp
qed

lemma serve_other_identity:
  assumes H: "\<forall>subj. u_id (subj_user subj) = i \<longrightarrow> hasUnlimitedAccess E subj"
  shows "\<exists>cs. trace (snd (serve E reqs w)) = trace w @ cs \<and> list_all (\<lambda>c. \<not> usage_call_of i c) cs"
proof (induction reqs arbitrary: w)
  case Nil
  then show ?case by simp
next
  case (Cons req reqs)
  obtain res w1 where h: "handler E req w = (res, w1)" by (cases "handler E req w")
  obtain ress w2 where s: "serve E reqs w1 = (ress, w2)" by (cases "serve E reqs w1")
  from handler_other_identity [OF H, of req w] h obtain c1 where
    t1: "trace w1 = trace w @ c1" and n1: "list_all (\<lambda>c. \<not> usage_call_of i c) c1" by auto
  from Cons.IH [of w1] s obtain c2 where
    t2: "trace w2 = trace w1 @ c2" and n2: "list_all (\<lambda>c. \<not> usage_call_of i c) c2" by auto
  from h s t1 t2 n1 n2 show ?case by simp
qed

lemma allRoles_member:
  assumes "r \<noteq> []"
      and "Option.bind prof p_role = Some r \<or> u_role u = Some r \<or> u_meta_role u = Some r
           \<or> u_app_role u = Some r"
  shows "r \<in> set (allRoles u prof)"
proof -
  have "Some r \<in> set (filter truthy
       [Option.bind prof p_role, u_role u, u_meta_role u, u_app_role u])"
    using assms by (auto simp: truthy_def)
  then have "the (Some r) \<in> set (allRoles u prof)"
    unfolding allRoles_def set_map by (rule imageI)
  then show ?thesis by simp
qed

lemma relational_handler_unlimited:
  assumes tok: "presented_token req = Some t" and usr: "auth_users (store v) t = Some u"
      and unl: "un (access_subject_of u (profiles (store v) (u_id u)))"
  shows "fst (handler (relational gen un) req v) \<noteq> Limit_reached"
    and "identities (store (snd (handler (relational gen un) req v))) = identities (store v)"
proof -
  let ?v1 = "\<lparr>store = store v, trace = trace v @ [Auth_getUser t]\<rparr>"
  let ?v2 = "\<lparr>store = store v, trace = trace ?v1 @ [Profiles_select (u_id u)]\<rparr>"
  note a = relational_authenticate [OF tok usr, of gen un]
  from relational_profile [of gen un "u_id u" ?v1] obtain d perr where
    p: "await (relational gen un) (Profiles_select (u_id u)) ?v1 = (Resolves d perr, ?v2)"
    and pd: "profile_of d = profiles (store v) (u_id u)" by auto
  have b: "access_control (relational gen un) req (Some u) ?v1
      = (Inr (Allowed, professionalRole_of req u (profile_of d)), ?v2)"
    by (rule access_control_unlimited [OF p]) (simp add: pd unl)
  show "fst (handler (relational gen un) req v) \<noteq> Limit_reached"
    by (rule handler_allowed_not_denied [OF a b])
  show "identities (store (snd (handler (relational gen un) req v))) = identities (store v)"
  proof (cases "history req")
    case None
    with handler_allowed [OF a b] show ?thesis by simp
  next
    case (Some h)
    from relational_keeps [OF surjective_pairing, of gen un req "Some u"
        "professionalRole_of req u (profile_of d)" "format_history h" ?v2]
      handler_allowed [OF a b] Some
    show ?thesis by simp
  qed
qed

lemma relational_serve_unlimited:
  assumes "list_all (\<lambda>r. presented_token r = Some t) reqs"
      and "auth_users (store v) t = Some u"
      and "un (access_subject_of u (profiles (store v) (u_id u)))"
  shows "list_all (\<lambda>r. r \<noteq> Limit_reached) (fst (serve (relational gen un) reqs v))
       \<and> identities (store (snd (serve (relational gen un) reqs v))) = identities (store v)"
  using assms
proof (induction reqs arbitrary: v)
  case Nil
  then show ?case by simp
next
  case (Cons req reqs)
  from Cons.prems have tok: "presented_token req = Some t"
    and rest: "list_all (\<lambda>r. presented_token r = Some t) reqs" by simp_all
  obtain res v1 where h: "handler (relational gen un) req v = (res, v1)"
    by (cases "handler (relational gen un) req v")
  from relational_handler_unlimited [where un = un and gen = gen, OF tok Cons.prems(2,3)] h
  have res: "res \<noteq> Limit_reached" and ids: "identities (store v1) = identities (store v)"
    by simp_all
  from ids have au: "auth_users (store v1) = auth_users (store v)"
    and pr: "profiles (store v1) = profiles (store v)"
    by (simp_all add: identities_def)
  have "list_all (\<lambda>r. r \<noteq> Limit_reached) (fst (serve (relational gen un) reqs v1))
       \<and> identities (store (snd (serve (relational gen un) reqs v1))) = identities (store v1)"
    using Cons.prems au pr by (intro Cons.IH [OF rest]) simp_all
  with h res ids show ?case by (auto split: prod.splits)
qed

lemma root_question_token: "presented_token root_question = Some ''root-token''"
  by (simp add: presented_token_def root_question_def first_question_def bearer_token_def)

lemma staffed_store_root:
  "auth_users (store (start staffed_store)) ''root-token'' = Some root"
  "profiles (store (start staffed_store)) (u_id root) = None"
  "question_usage (store (start staffed_store)) = question_usage staffed_store"
  by (simp_all add: start_def staffed_store_def fresh_store_def root_def)

lemma root_is_admin: "any_admin (access_subject_of root None)"
  by (simp add: any_admin_def access_subject_of_def allRoles_def root_def truthy_def)

text \<open>
  Claim C5. When a request authenticates as a user whom \<^verbatim>\<open>hasUnlimitedAccess\<close> accepts,
  access control allows it after the profile read, the response is not \<^verbatim>\<open>LIMIT_REACHED\<close> and
  no call of the request reads or writes a usage row. Every non-empty role of the profile,
  of the user, of the user metadata and of the app metadata is in the list of roles handed
  to \<^verbatim>\<open>hasUnlimitedAccess\<close>, so for a helper that accepts every subject whose list holds a
  given role, that role in any one of the four sources suffices. Over any number of requests
  served in a row, while \<^verbatim>\<open>hasUnlimitedAccess\<close> accepts every subject of identity \<open>i\<close>, no
  call touches the usage row of \<open>i\<close>; on the relational store, requests of an accepted
  identity are never denied and leave all usage rows as they were.
\<close>

theorem unlimited_identity_never_touches_the_counter:
  assumes auth: "authenticate E req w = (Some u, w1)"
      and prof: "await E (Profiles_select (u_id u)) w1 = (Resolves d perr, w2)"
      and unlimited: "hasUnlimitedAccess E (access_subject_of u (profile_of d))"
  shows "access_control E req (Some u) w1
           = (Inr (Allowed, professionalRole_of req u (profile_of d)), w2)
       \<and> fst (handler E req w) \<noteq> Limit_reached
       \<and> list_all (\<lambda>c. \<not> usage_call c) (calls_since w (snd (handler E req w)))
       \<and> (r \<noteq> [] \<and> (Option.bind prof p_role = Some r \<or> u_role x = Some r
                      \<or> u_meta_role x = Some r \<or> u_app_role x = Some r) \<longrightarrow>
            r \<in> set (roles (access_subject_of x prof))
            \<and> ((\<forall>subj. r \<in> set (roles subj) \<longrightarrow> hasUnlimitedAccess E subj) \<longrightarrow>
                 hasUnlimitedAccess E (access_subject_of x prof)))
       \<and> ((\<forall>subj. u_id (subj_user subj) = i \<longrightarrow> hasUnlimitedAccess E subj) \<longrightarrow>
            list_all (\<lambda>c. \<not> usage_call_of i c) (calls_since w' (snd (serve E reqs w'))))
       \<and> (list_all (\<lambda>r. presented_token r = Some t) rqs \<and> auth_users (store v) t = Some a
            \<and> un (access_subject_of a (profiles (store v) (u_id a))) \<longrightarrow>
            list_all (\<lambda>r. r \<noteq> Limit_reached) (fst (serve (relational gen un) rqs v))
            \<and> question_usage (store (snd (serve (relational gen un) rqs v)))
                = question_usage (store v))"
proof -
  have ac: "access_control E req (Some u) w1
           = (Inr (Allowed, professionalRole_of req u (profile_of d)), w2)"
    by (rule access_control_unlimited [OF prof unlimited])
  have nd: "fst (handler E req w) \<noteq> Limit_reached"
    by (rule handler_allowed_not_denied [OF auth ac])
  from authenticate_Some [OF auth] obtain t' where t1: "trace w1 = trace w @ [Auth_getUser t']"
    by blast
  have t2: "trace w2 = trace w @ [Auth_getUser t', Profiles_select (u_id u)]"
    using t1 await_trace [OF prof] by simp
  have "\<exists>cs. trace (snd (handler E req w)) = trace w2 @ cs \<and> list_all chat_call cs"
  proof (cases "history req")
    case None
    with handler_allowed [OF auth ac] show ?thesis by simp
  next
    case (Some h)
    from generate_and_persist_chat_calls [OF surjective_pairing, of E req "Some u"
        "professionalRole_of req u (profile_of d)" "format_history h" w2]
      handler_allowed [OF auth ac] Some
    show ?thesis by simp
  qed
  then obtain cs where t3: "trace (snd (handler E req w)) = trace w2 @ cs"
    and ch: "list_all chat_call cs" by blast
  have "calls_since w (snd (handler E req w)) = [Auth_getUser t', Profiles_select (u_id u)] @ cs"
    using t2 t3 by (simp add: calls_since_def)
  with ch chat_call_not_usage
  have nu: "list_all (\<lambda>c. \<not> usage_call c) (calls_since w (snd (handler E req w)))"
    by (auto simp: list_all_iff)
  have rl: "r \<noteq> [] \<and> (Option.bind prof p_role = Some r \<or> u_role x = Some r
                      \<or> u_meta_role x = Some r \<or> u_app_role x = Some r) \<longrightarrow>
            r \<in> set (roles (access_subject_of x prof))
            \<and> ((\<forall>subj. r \<in> set (roles subj) \<longrightarrow> hasUnlimitedAccess E subj) \<longrightarrow>
                 hasUnlimitedAccess E (access_subject_of x prof))"
    using allRoles_member [of r prof x] by (simp add: access_subject_of_def)
  have sq: "(\<forall>subj. u_id (subj_user subj) = i \<longrightarrow> hasUnlimitedAccess E subj) \<longrightarrow>
            list_all (\<lambda>c. \<not> usage_call_of i c) (calls_since w' (snd (serve E reqs w')))"
  proof
    assume H: "\<forall>subj. u_id (subj_user subj) = i \<longrightarrow> hasUnlimitedAccess E subj"
    from serve_other_identity [OF H, of reqs w'] obtain cs' where
      "trace (snd (serve E reqs w')) = trace w' @ cs'" "list_all (\<lambda>c. \<not> usage_call_of i c) cs'"
      by blast
    then show "list_all (\<lambda>c. \<not> usage_call_of i c) (calls_since w' (snd (serve E reqs w')))"
      by (simp add: calls_since_def)
  qed
  have rel: "list_all (\<lambda>r. presented_token r = Some t) rqs \<and> auth_users (store v) t = Some a
            \<and> un (access_subject_of a (profiles (store v) (u_id a))) \<longrightarrow>
            list_all (\<lambda>r. r \<noteq> Limit_reached) (fst (serve (relational gen un) rqs v))
            \<and> question_usage (store (snd (serve (relational gen un) rqs v)))
                = question_usage (store v)"
    using relational_serve_unlimited [where un = un and gen = gen and reqs = rqs and t = t
        and v = v and u = a]
    by (simp add: identities_def)
  from ac nd nu rl sq rel show ?thesis by blast
qed

theorem unlimited_identity_never_touches_the_counter_witness:
  "any_admin (access_subject_of root None)
   \<and> list_all (\<lambda>r. r \<noteq> Limit_reached)
        (fst (serve (relational answers any_admin) hundred_questions (start staffed_store)))
   \<and> question_usage
        (store (snd (serve (relational answers any_admin) hundred_questions (start staffed_store))))
       = question_usage staffed_store"
proof (rule relational_chain
    [OF root_question_token staffed_store_root(1), where gen = answers and un = any_admin])
  let ?R = "relational answers any_admin"
  fix d perr d' uerr w1 w2 w3 w4
  assume a: "authenticate ?R root_question (start staffed_store) = (Some root, w1)"
    and p: "await ?R (Profiles_select (u_id root)) w1 = (Resolves d perr, w2)"
    and pd: "profile_of d = profiles (store (start staffed_store)) (u_id root)"
  have unl: "hasUnlimitedAccess ?R (access_subject_of root (profile_of d))"
    using root_is_admin by (simp add: pd staffed_store_root(2))
  have toks: "list_all (\<lambda>r. presented_token r = Some ''root-token'') hundred_questions"
    by (simp add: hundred_questions_def root_question_token list_all_iff)
  note inst = unlimited_identity_never_touches_the_counter
    [where E = ?R and un = any_admin and gen = answers and rqs = hundred_questions
       and v = "start staffed_store" and t = "''root-token''" and a = root,
     OF a p unl]
  have H: "list_all (\<lambda>r. presented_token r = Some ''root-token'') hundred_questions
      \<and> auth_users (store (start staffed_store)) ''root-token'' = Some root
      \<and> any_admin (access_subject_of root (profiles (store (start staffed_store)) (u_id root)))"
    using toks staffed_store_root(1) root_is_admin by (simp add: staffed_store_root(2))
  from inst [THEN conjunct2, THEN conjunct2, THEN conjunct2, THEN conjunct2, THEN conjunct2,
      THEN mp, OF H] root_is_admin
  show "any_admin (access_subject_of root None)
   \<and> list_all (\<lambda>r. r \<noteq> Limit_reached) (fst (serve ?R hundred_questions (start staffed_store)))
   \<and> question_usage (store (snd (serve ?R hundred_questions (start staffed_store))))
       = question_usage staffed_store"
    by (simp add: staffed_store_root(3))
qed

subsection \<open>The history handed to generation\<close>

lemma not_generate_generates_with: "\<not> is_generate c \<Longrightarrow> generates_with fh c"
  by (cases c) simp_all

lemma authenticate_no_generation:
  assumes "authenticate E req w = (u, w')"
  shows "\<exists>cs. trace w' = trace w @ cs \<and> list_all (\<lambda>c. \<not> is_generate c) cs"
  using authenticate_calls [OF assms] by (cases "presented_token req") simp_all

lemma usage_call_not_generate: "usage_call c \<Longrightarrow> \<not> is_generate c"
  by (cases c) simp_all

lemma access_control_no_generation:
  assumes "access_control E req user w = (r, w')"
  shows "\<exists>cs. trace w' = trace w @ cs \<and> list_all (\<lambda>c. \<not> is_generate c) cs"
  using assms unfolding access_control_def Let_def
  by (auto split: option.splits prod.splits reply.splits if_splits sum.splits
      dest!: await_trace usage_gate_calls simp: list_all_iff usage_call_not_generate)

lemma persistence_no_generation:
  assumes "persistence E req sid user rt w = (ok, w')"
  shows "\<exists>cs. trace w' = trace w @ cs \<and> list_all (\<lambda>c. \<not> is_generate c) cs"
  using assms unfolding persistence_def
  by (auto split: prod.splits option.splits if_splits reply.splits
      dest!: persistMessages_trace await_trace simp: turn_calls_def)

lemma generate_and_persist_generation:
  assumes "generate_and_persist E req user pr fh w = (res, w')"
  shows "\<exists>cs. trace w' = trace w @ GenerateMessage (gen_request_of req pr fh) # cs
            \<and> list_all (\<lambda>c. \<not> is_generate c) cs"
  using assms unfolding generate_and_persist_def
  by (auto split: prod.splits option.splits if_splits reply.splits payload.splits
        dest!: persistence_no_generation await_trace)

lemma handler_generation:
  obtains pre post where
    "calls_since w (snd (handler E req w)) = pre @ post"
    "list_all (\<lambda>c. \<not> is_generate c) pre"
    "post = [] \<or> (\<exists>user pr h cs. history req = Some h
        \<and> post = GenerateMessage (gen_request_of req pr (format_history h)) # cs
        \<and> list_all (\<lambda>c. \<not> is_generate c) cs)"
proof (rule handler_stages [of E req w])
  fix user w1 r w2
  assume a: "authenticate E req w = (user, w1)"
    and b: "access_control E req user w1 = (r, w2)"
    and c: "(\<exists>p h. r = Inr (Allowed, p) \<and> history req = Some h
        \<and> handler E req w = generate_and_persist E req user p (format_history h) w2)
     \<or> snd (handler E req w) = w2"
  from authenticate_no_generation [OF a] obtain c1 where
    t1: "trace w1 = trace w @ c1" and n1: "list_all (\<lambda>c. \<not> is_generate c) c1" by blast
  from access_control_no_generation [OF b] obtain c2 where
    t2: "trace w2 = trace w1 @ c2" and n2: "list_all (\<lambda>c. \<not> is_generate c) c2" by blast
  have pre: "list_all (\<lambda>c. \<not> is_generate c) (c1 @ c2)" using n1 n2 by simp
  from c show thesis
  proof
    assume "snd (handler E req w) = w2"
    with t1 t2 have "calls_since w (snd (handler E req w)) = (c1 @ c2) @ []"
      by (simp add: calls_since_def)
    from that [OF this pre] show thesis by simp
  next
    assume "\<exists>p h. r = Inr (Allowed, p) \<and> history req = Some h
        \<and> handler E req w = generate_and_persist E req user p (format_history h) w2"
    then obtain p h where hh: "history req = Some h"
      and run: "handler E req w = generate_and_persist E req user p (format_history h) w2"
      by blast
    from generate_and_persist_generation [OF surjective_pairing, of E req user p "format_history h" w2]
    obtain cs where t3: "trace (snd (handler E req w))
        = trace w2 @ GenerateMessage (gen_request_of req p (format_history h)) # cs"
      and n3: "list_all (\<lambda>c. \<not> is_generate c) cs"
      unfolding run by blast
    from t1 t2 t3 have "calls_since w (snd (handler E req w))
        = (c1 @ c2) @ GenerateMessage (gen_request_of req p (format_history h)) # cs"
      by (simp add: calls_since_def)
    from that [OF this pre] hh n3 show thesis by blast
  qed
qed

lemma greeted_question_facts:
  "presented_token greeted_question = Some ''alice-token''"
  "history greeted_question = Some [\<lparr>h_role = ''model'', h_text = ''Welcome to MDnexa''\<rparr>,
                        \<lparr>h_role = ''user'', h_text = ''What is sepsis?''\<rparr>,
                        \<lparr>h_role = ''model'', h_text = ''Sepsis is ...''\<rparr>]"
  "professionalRole_of greeted_question alice None = Some ''Physician''"
  by (simp_all add: presented_token_def greeted_question_def first_question_def bearer_token_def
      professionalRole_of_def or_else_def truthy_def alice_def)

text \<open>
  Claim C6. The formatted history is the incoming history without its longest prefix of
  turns whose role is not "user": every turn after that prefix is kept in its place, with
  its text unchanged and its role "user" or "model", so the result is empty or starts with a
  user turn. This is the history that generation receives: every generation call of a
  request carries it, and a request that passes access control makes exactly one generation
  call, the first call after access control, with this history and the message of the
  request.
\<close>

theorem format_history_starts_with_user:
  "format_history h = map format_msg (dropWhile (\<lambda>m. h_role m \<noteq> ''user'') h)
   \<and> (format_history h = [] \<or> f_role (hd (format_history h)) = ''user'')
   \<and> map f_text (format_history h) = map h_text (dropWhile (\<lambda>m. h_role m \<noteq> ''user'') h)
   \<and> map f_role (format_history h)
       = map (\<lambda>m. if h_role m = ''user'' then ''user'' else ''model'')
           (dropWhile (\<lambda>m. h_role m \<noteq> ''user'') h)
   \<and> (history req = Some h \<longrightarrow>
        list_all (generates_with (format_history h)) (calls_since w (snd (handler E req w))))
   \<and> (history req = Some h \<and> authenticate E req w = (user, wa)
        \<and> access_control E req user wa = (Inr (Allowed, pr), wb) \<longrightarrow>
        take 1 (calls_since wb (snd (handler E req w)))
          = [GenerateMessage (gen_request_of req pr (format_history h))]
        \<and> filter is_generate (calls_since w (snd (handler E req w)))
          = [GenerateMessage (gen_request_of req pr (format_history h))]
        \<and> g_history (gen_request_of req pr (format_history h)) = format_history h
        \<and> g_message (gen_request_of req pr (format_history h)) = message req)"
proof -
  note eq = format_history_dropWhile [of h]
  have start: "format_history h = [] \<or> f_role (hd (format_history h)) = ''user''"
  proof (cases "dropWhile (\<lambda>m. h_role m \<noteq> ''user'') h")
    case Nil
    with eq show ?thesis by simp
  next
    case (Cons m ms)
    then have "dropWhile (\<lambda>m. h_role m \<noteq> ''user'') h \<noteq> []" by simp
    from hd_dropWhile [OF this] Cons have "h_role m = ''user''" by simp
    with eq Cons show ?thesis by (simp add: format_msg_def)
  qed
  have texts: "map f_text (format_history h) = map h_text (dropWhile (\<lambda>m. h_role m \<noteq> ''user'') h)"
    unfolding eq by (simp add: format_msg_def)
  have roles: "map f_role (format_history h)
       = map (\<lambda>m. if h_role m = ''user'' then ''user'' else ''model'')
           (dropWhile (\<lambda>m. h_role m \<noteq> ''user'') h)"
    unfolding eq by (simp add: format_msg_def)
  have every: "history req = Some h \<longrightarrow>
        list_all (generates_with (format_history h)) (calls_since w (snd (handler E req w)))"
  proof
    assume hh: "history req = Some h"
    show "list_all (generates_with (format_history h)) (calls_since w (snd (handler E req w)))"
    proof (rule handler_generation [of w E req])
      fix pre post
      assume c: "calls_since w (snd (handler E req w)) = pre @ post"
        and p: "list_all (\<lambda>c. \<not> is_generate c) pre"
        and q: "post = [] \<or> (\<exists>user pr h cs. history req = Some h
        \<and> post = GenerateMessage (gen_request_of req pr (format_history h)) # cs
        \<and> list_all (\<lambda>c. \<not> is_generate c) cs)"
      from p have p': "list_all (generates_with (format_history h)) pre"
        by (auto simp: list_all_iff not_generate_generates_with)
      from q hh have "list_all (generates_with (format_history h)) post"
        by (auto simp: list_all_iff not_generate_generates_with gen_request_of_def)
      with p' c show ?thesis by simp
    qed
  qed
  have allowed: "history req = Some h \<and> authenticate E req w = (user, wa)
        \<and> access_control E req user wa = (Inr (Allowed, pr), wb) \<longrightarrow>
        take 1 (calls_since wb (snd (handler E req w)))
          = [GenerateMessage (gen_request_of req pr (format_history h))]
        \<and> filter is_generate (calls_since w (snd (handler E req w)))
          = [GenerateMessage (gen_request_of req pr (format_history h))]
        \<and> g_history (gen_request_of req pr (format_history h)) = format_history h
        \<and> g_message (gen_request_of req pr (format_history h)) = message req"
  proof (intro impI, elim conjE)
    assume hh: "history req = Some h" and a: "authenticate E req w = (user, wa)"
      and b: "access_control E req user wa = (Inr (Allowed, pr), wb)"
    from handler_allowed [OF a b] hh
    have run: "handler E req w = generate_and_persist E req user pr (format_history h) wb"
      by simp
    from generate_and_persist_generation [OF surjective_pairing, of E req user pr "format_history h" wb]
    obtain cs where t3: "trace (snd (handler E req w))
        = trace wb @ GenerateMessage (gen_request_of req pr (format_history h)) # cs"
      and n3: "list_all (\<lambda>c. \<not> is_generate c) cs"
      unfolding run by blast
    from authenticate_no_generation [OF a] obtain c1 where
      t1: "trace wa = trace w @ c1" and n1: "list_all (\<lambda>c. \<not> is_generate c) c1" by blast
    from access_control_no_generation [OF b] obtain c2 where
      t2: "trace wb = trace wa @ c2" and n2: "list_all (\<lambda>c. \<not> is_generate c) c2" by blast
    have one: "take 1 (calls_since wb (snd (handler E req w)))
          = [GenerateMessage (gen_request_of req pr (format_history h))]"
      using t3 by (simp add: calls_since_def)
    have all: "calls_since w (snd (handler E req w))
        = c1 @ c2 @ GenerateMessage (gen_request_of req pr (format_history h)) # cs"
      using t1 t2 t3 by (simp add: calls_since_def)
    have "filter is_generate (calls_since w (snd (handler E req w)))
          = [GenerateMessage (gen_request_of req pr (format_history h))]"
      unfolding all using n1 n2 n3 by (simp add: list_all_iff)
    with one show "take 1 (calls_since wb (snd (handler E req w)))
          = [GenerateMessage (gen_request_of req pr (format_history h))]
        \<and> filter is_generate (calls_since w (snd (handler E req w)))
          = [GenerateMessage (gen_request_of req pr (format_history h))]
        \<and> g_history (gen_request_of req pr (format_history h)) = format_history h
        \<and> g_message (gen_request_of req pr (format_history h)) = message req"
      by (simp add: gen_request_of_def)
  qed
  from eq start texts roles every allowed show ?thesis by blast
qed


theorem format_history_starts_with_user_witness:
  "format_history [\<lparr>h_role = ''model'', h_text = ''Welcome to MDnexa''\<rparr>,
                   \<lparr>h_role = ''user'', h_text = ''What is sepsis?''\<rparr>,
                   \<lparr>h_role = ''model'', h_text = ''Sepsis is ...''\<rparr>]
     = [\<lparr>f_role = ''user'', f_text = ''What is sepsis?''\<rparr>,
        \<lparr>f_role = ''model'', f_text = ''Sepsis is ...''\<rparr>]
   \<and> filter is_generate
        (calls_since (start fresh_store)
           (snd (handler (relational answers nobody) greeted_question (start fresh_store))))
     = [GenerateMessage (gen_request_of greeted_question (Some ''Physician'')
          [\<lparr>f_role = ''user'', f_text = ''What is sepsis?''\<rparr>,
           \<lparr>f_role = ''model'', f_text = ''Sepsis is ...''\<rparr>])]
   \<and> list_all (generates_with [\<lparr>f_role = ''user'', f_text = ''What is sepsis?''\<rparr>,
                                 \<lparr>f_role = ''model'', f_text = ''Sepsis is ...''\<rparr>])
        (calls_since (start fresh_store)
           (snd (handler (relational answers nobody) greeted_question (start fresh_store))))"
proof -
  let ?R = "relational answers nobody"
  let ?h = "[\<lparr>h_role = ''model'', h_text = ''Welcome to MDnexa''\<rparr>,
             \<lparr>h_role = ''user'', h_text = ''What is sepsis?''\<rparr>,
             \<lparr>h_role = ''model'', h_text = ''Sepsis is ...''\<rparr>]"
  let ?v1 = "\<lparr>store = store (start fresh_store),
              trace = trace (start fresh_store) @ [Auth_getUser ''alice-token'']\<rparr>"
  have fh: "format_history ?h = [\<lparr>f_role = ''user'', f_text = ''What is sepsis?''\<rparr>,
        \<lparr>f_role = ''model'', f_text = ''Sepsis is ...''\<rparr>]"
    by (simp add: format_history_def format_msg_def)
  note a = relational_authenticate [OF greeted_question_facts(1) fresh_store_alice(1),
      of answers nobody]
  have b: "access_control ?R greeted_question (Some alice) ?v1 =
      (Inr (Allowed, professionalRole_of greeted_question alice (profiles (store ?v1) (u_id alice))),
       \<lparr>store = (store ?v1)\<lparr>question_usage := (question_usage (store ?v1))
                   (u_id alice \<mapsto> currentCount_of (question_usage (store ?v1) (u_id alice)) + 1)\<rparr>,
        trace = trace ?v1 @ [Profiles_select (u_id alice), Usage_select (u_id alice),
                   increment_call (u_id alice) (question_usage (store ?v1) (u_id alice))]\<rparr>)"
    by (rule relational_access_allowed)
       (simp_all add: nobody_def start_def fresh_store_def currentCount_of_def)
  have pr: "professionalRole_of greeted_question alice (profiles (store ?v1) (u_id alice))
      = Some ''Physician''"
    using greeted_question_facts(3) by (simp add: start_def fresh_store_def)
  note inst = format_history_starts_with_user
    [where h = ?h and req = greeted_question and E = ?R and w = "start fresh_store"]
  from inst [THEN conjunct2, THEN conjunct2, THEN conjunct2, THEN conjunct2, THEN conjunct1]
    greeted_question_facts(2)
  have every: "list_all (generates_with (format_history ?h))
        (calls_since (start fresh_store) (snd (handler ?R greeted_question (start fresh_store))))"
    by blast
  from inst [THEN conjunct2, THEN conjunct2, THEN conjunct2, THEN conjunct2, THEN conjunct2]
    greeted_question_facts(2) a b
  have one: "filter is_generate
        (calls_since (start fresh_store) (snd (handler ?R greeted_question (start fresh_store))))
     = [GenerateMessage (gen_request_of greeted_question
          (professionalRole_of greeted_question alice (profiles (store ?v1) (u_id alice)))
          (format_history ?h))]"
    by blast
  from fh every one pr show ?thesis by simp
qed

subsection \<open>The title of the session\<close>


lemma toLocaleString_relational [simp]: "toLocaleString (relational gen un) = clock"
  by (simp add: relational_def)













subsection \<open>A rejected title update\<close>


lemma answer_survives_the_persistence_block:
  assumes "await E (GenerateMessage (gen_request_of req pr fh)) w
             = (Resolves (Generated rt m) gerr, w1)"
  shows "fst (generate_and_persist E req user pr fh w) = Json_ok rt m
       \<or> (fh = [] \<and> (\<exists>e. fst (generate_and_persist E req user pr fh w)
                              = Server_error (Rejected e)))"
  using assms unfolding generate_and_persist_def
  by (auto split: prod.splits option.splits reply.splits)

subsection \<open>A foreign-key violation in a resolved reply\<close>

lemma await_resolving:
  "await (resolving gen un) c w =
     (fst (resolving_step gen (store w) c),
      \<lparr>store = snd (resolving_step gen (store w) c), trace = trace w @ [c]\<rparr>)"
  by (simp add: await_def resolving_def split: prod.splits)

text \<open>
  Claim C1. The claim fails when the client reports the missing session in the \<^verbatim>\<open>error\<close> field
  of a resolved insert: \<^verbatim>\<open>persistMessages\<close> does not read that field, nothing is thrown and
  the \<^verbatim>\<open>catch\<close> with the recovery is not entered. A first turn for a session that does not
  exist is answered with the generated text, its calls are one run of \<^verbatim>\<open>persistMessages\<close>
  and the title update without any session insert, and afterwards the store holds neither the
  session nor the two messages. The same request on the store that rejects the insert makes
  the user insert, one session insert with the session id of the request and the id of the
  user, one complete run, and saves both messages. An error that does not pass the test of
  the \<^verbatim>\<open>catch\<close> is followed by no session insert.
\<close>

theorem resolved_violation_is_not_recovered:
  \<open>fst (await (resolving answers nobody)
          (Messages_insert (user_row ''s1'' alice ''What is sepsis?'')) (start fresh_store))
     = Resolves No_data (Some (fk_violation ''s1''))
   \<and> err_code (fk_violation ''s1'') = Some ''23503''
   \<and> names_session_table (fk_violation ''s1'')
   \<and> fst (handler (resolving answers nobody) first_question (start fresh_store))
     = Json_ok ''Sepsis is a dysregulated host response to infection.'' ''gemini-2.0-flash''
   \<and> trace (snd (handler (resolving answers nobody) first_question (start fresh_store)))
     = [Auth_getUser ''alice-token'', Profiles_select ''u-alice'', Usage_select ''u-alice'',
        Usage_insert ''u-alice'' 1,
        GenerateMessage (gen_request_of first_question (Some ''Physician'') []),
        Messages_insert (user_row ''s1'' alice ''What is sepsis?''),
        Messages_insert (model_row ''s1'' alice
           ''Sepsis is a dysregulated host response to infection.''),
        Sessions_touch ''s1'', Sessions_set_title ''s1'' ''Nov 3, 09:08 AM'']
   \<and> chat_sessions (store (snd (handler (resolving answers nobody) first_question
                                   (start fresh_store)))) ''s1'' = None
   \<and> chat_messages (store (snd (handler (resolving answers nobody) first_question
                                   (start fresh_store)))) = []
   \<and> trace (snd (handler (relational answers nobody) first_question (start fresh_store)))
     = [Auth_getUser ''alice-token'', Profiles_select ''u-alice'', Usage_select ''u-alice'',
        Usage_insert ''u-alice'' 1,
        GenerateMessage (gen_request_of first_question (Some ''Physician'') []),
        Messages_insert (user_row ''s1'' alice ''What is sepsis?''),
        Sessions_insert \<lparr>cs_id = ''s1'', cs_user_id = ''u-alice'', cs_title = ''Nov 3, 09:08 AM'',
           cs_region = ''International'', cs_country = ''India''\<rparr>,
        Messages_insert (user_row ''s1'' alice ''What is sepsis?''),
        Messages_insert (model_row ''s1'' alice
           ''Sepsis is a dysregulated host response to infection.''),
        Sessions_touch ''s1'', Sessions_set_title ''s1'' ''Nov 3, 09:08 AM'']
   \<and> chat_messages (store (snd (handler (relational answers nobody) first_question
                                   (start fresh_store))))
     = [user_row ''s1'' alice ''What is sepsis?'',
        model_row ''s1'' alice ''Sepsis is a dysregulated host response to infection.'']
   \<and> \<not> missing_session outage
   \<and> persistence (scripted nobody) first_question ''s1'' alice ''Sepsis.'' (start [Rejects outage])
     = (False, \<lparr>store = [], trace = [Messages_insert (user_row ''s1'' alice ''What is sepsis?'')]\<rparr>)\<close>
proof -
  note shape = fk_violation_shape [of "''s1''"]
  have code: "err_code (fk_violation ''s1'') = Some ''23503''"
    by (simp add: fk_violation_def)
  have first: "fst (await (resolving answers nobody)
          (Messages_insert (user_row ''s1'' alice ''What is sepsis?'')) (start fresh_store))
     = Resolves No_data (Some (fk_violation ''s1''))"
    by (simp add: await_resolving resolving_step_def store_step_def user_row_def start_def
        fresh_store_def)
  have res: "handler (resolving answers nobody) first_question (start fresh_store)
     = (Json_ok ''Sepsis is a dysregulated host response to infection.'' ''gemini-2.0-flash'',
        \<lparr>store = fresh_store\<lparr>question_usage := [''u-alice'' \<mapsto> 1]\<rparr>,
         trace = [Auth_getUser ''alice-token'', Profiles_select ''u-alice'', Usage_select ''u-alice'',
        Usage_insert ''u-alice'' 1,
        GenerateMessage (gen_request_of first_question (Some ''Physician'') []),
        Messages_insert (user_row ''s1'' alice ''What is sepsis?''),
        Messages_insert (model_row ''s1'' alice
           ''Sepsis is a dysregulated host response to infection.''),
        Sessions_touch ''s1'', Sessions_set_title ''s1'' ''Nov 3, 09:08 AM'']\<rparr>)"
    by (simp add: handler_def authenticate_def first_question_token access_control_def
      usage_gate_def generate_and_persist_def persistence_def persistMessages_def
      await_def resolving_step_def store_step_def resolving_def start_def
      presented_token_def bearer_token_def
      profile_of_def usage_of_def currentCount_of_def increment_call_def
      format_history_def professionalRole_of_def or_else_def truthy_def
      first_question_def alice_def user_row_def fresh_store_def answers_def
      model_row_def gen_request_of_def nobody_def access_subject_of_def)
  have rel: "handler (relational answers nobody) first_question (start fresh_store)
     = (Json_ok ''Sepsis is a dysregulated host response to infection.'' ''gemini-2.0-flash'',
        \<lparr>store = fresh_store\<lparr>question_usage := [''u-alice'' \<mapsto> 1],
            chat_sessions := [''s1'' \<mapsto> \<lparr>cs_id = ''s1'', cs_user_id = ''u-alice'', cs_title = ''Nov 3, 09:08 AM'',
           cs_region = ''International'', cs_country = ''India''\<rparr>],
            chat_messages := [user_row ''s1'' alice ''What is sepsis?'',
        model_row ''s1'' alice ''Sepsis is a dysregulated host response to infection.'']\<rparr>,
         trace = [Auth_getUser ''alice-token'', Profiles_select ''u-alice'', Usage_select ''u-alice'',
        Usage_insert ''u-alice'' 1,
        GenerateMessage (gen_request_of first_question (Some ''Physician'') []),
        Messages_insert (user_row ''s1'' alice ''What is sepsis?''),
        Sessions_insert \<lparr>cs_id = ''s1'', cs_user_id = ''u-alice'', cs_title = ''Nov 3, 09:08 AM'',
           cs_region = ''International'', cs_country = ''India''\<rparr>,
        Messages_insert (user_row ''s1'' alice ''What is sepsis?''),
        Messages_insert (model_row ''s1'' alice
           ''Sepsis is a dysregulated host response to infection.''),
        Sessions_touch ''s1'', Sessions_set_title ''s1'' ''Nov 3, 09:08 AM'']\<rparr>)"
    using shape
    by (simp add: handler_def authenticate_def first_question_token access_control_def
      usage_gate_def generate_and_persist_def persistence_def persistMessages_def
      await_def store_step_def relational_def start_def new_session_def or_default_def
      presented_token_def bearer_token_def
      profile_of_def usage_of_def currentCount_of_def increment_call_def
      format_history_def professionalRole_of_def or_else_def truthy_def
      first_question_def alice_def user_row_def fresh_store_def answers_def
      model_row_def gen_request_of_def nobody_def access_subject_of_def)
  have out: "\<not> missing_session outage"
    by (simp add: missing_session_def names_session_table_def outage_def)
  have per: "persistence (scripted nobody) first_question ''s1'' alice ''Sepsis.'' (start [Rejects outage])
     = (False, \<lparr>store = [], trace = [Messages_insert (user_row ''s1'' alice ''What is sepsis?'')]\<rparr>)"
    using out
    by (simp add: persistence_def persistMessages_def await_def scripted_def scripted_step_def
        start_def first_question_def)
  from first code shape res rel out per show ?thesis by (simp add: fresh_store_def)
qed

subsection \<open>The related-questions route\<close>

text \<open>
  Claim C10. The response of the route always has status 200. Its body is the empty array
  when a field of the body is missing, when the generation call is rejected, when reading
  its text throws and when the text is not JSON; a text that parses gives the parsed value
  as the body, so a generated empty array and every failure give the same response.
\<close>

theorem related_failures_answer_empty_array:
  "res_status (related gc parse b) = 200
   \<and> (r_lastMessage b = None \<or> r_lastResponse b = None \<longrightarrow>
        related gc parse b = \<lparr>res_status = 200, res_body = JArray []\<rparr>)
   \<and> (r_lastMessage b = Some lm \<and> r_lastResponse b = Some lr
        \<and> (gc (related_prompt_of (r_userRole b) (r_language b) lm lr) = Generation_rejected e
           \<or> gc (related_prompt_of (r_userRole b) (r_language b) lm lr) = Text_throws e
           \<or> gc (related_prompt_of (r_userRole b) (r_language b) lm lr) = Text t
              \<and> parse t = None) \<longrightarrow>
        related gc parse b = \<lparr>res_status = 200, res_body = JArray []\<rparr>)
   \<and> (r_lastMessage b = Some lm \<and> r_lastResponse b = Some lr
        \<and> gc (related_prompt_of (r_userRole b) (r_language b) lm lr) = Text t
        \<and> parse t = Some j \<longrightarrow>
        related gc parse b = \<lparr>res_status = 200, res_body = j\<rparr>)"
  by (auto simp: related_def split: option.splits generated.splits)

theorem related_failures_answer_empty_array_witness:
  "related (\<lambda>_. Generation_rejected outage) only_empty_array follow_up
     = \<lparr>res_status = 200, res_body = JArray []\<rparr>
   \<and> related (\<lambda>_. Text ''not json'') only_empty_array follow_up
     = \<lparr>res_status = 200, res_body = JArray []\<rparr>
   \<and> related (\<lambda>_. Text ''[]'') only_empty_array follow_up
     = \<lparr>res_status = 200, res_body = JArray []\<rparr>"
proof -
  have m: "r_lastMessage follow_up = Some ''What is sepsis?''
      \<and> r_lastResponse follow_up
          = Some ''Sepsis is a dysregulated host response to infection.''"
    by (simp add: follow_up_def)
  have a: "related (\<lambda>_. Generation_rejected outage) only_empty_array follow_up
     = \<lparr>res_status = 200, res_body = JArray []\<rparr>"
    using related_failures_answer_empty_array
      [of "\<lambda>_. Generation_rejected outage" only_empty_array follow_up
          "''What is sepsis?''" "''Sepsis is a dysregulated host response to infection.''"
          outage] m
    by simp
  have b: "related (\<lambda>_. Text ''not json'') only_empty_array follow_up
     = \<lparr>res_status = 200, res_body = JArray []\<rparr>"
    using related_failures_answer_empty_array
      [of "\<lambda>_. Text ''not json''" only_empty_array follow_up
          "''What is sepsis?''" "''Sepsis is a dysregulated host response to infection.''"
          outage "''not json''"] m
    by (simp add: only_empty_array_def)
  have c: "related (\<lambda>_. Text ''[]'') only_empty_array follow_up
     = \<lparr>res_status = 200, res_body = JArray []\<rparr>"
    using related_failures_answer_empty_array
      [of "\<lambda>_. Text ''[]''" only_empty_array follow_up
          "''What is sepsis?''" "''Sepsis is a dysregulated host response to infection.''"
          outage "''[]''" "JArray []"] m
    by (simp add: only_empty_array_def)
  from a b c show ?thesis by simp
qed

end
